theory Spec2Isabelle
  imports Complex_Main "HOL-Library.Log_Nat" "HOL-Library.Stream" "HOL-Library.Multiset"
begin

section \<open>Efficient RANSAC shape detection: the engine of Shape\_detection\_3.h\<close>

text \<open>
  The development embeds \<^verbatim>\<open>CGAL::Shape_detection_3\<close> (file \<^verbatim>\<open>Shape_detection_3.h\<close>).
  The number type \<^verbatim>\<open>FT\<close> is idealised as \<^typ>\<open>real\<close>; counters are \<^typ>\<open>nat\<close> or \<^typ>\<open>int\<close>
  (no run of the driver on fewer than \<open>2^31\<close> points takes them out of range).
  The generator \<^verbatim>\<open>std::mt19937 m_rng\<close> belongs to the standard library: it is represented by
  the sequence of values that successive calls \<^verbatim>\<open>m_rng()\<close> return, a \<^typ>\<open>nat stream\<close>; the
  sequence is fixed by the seed, which the constructor takes from \<^verbatim>\<open>std::random_device\<close>.
\<close>

subsection \<open>Parameters and the overlook probability\<close>

record Parameters =
  probability :: real
  min_points :: nat
  epsilon :: real
  normal_threshold :: real
  cluster_epsilon :: real

text \<open>
  \<^verbatim>\<open>std::pow\<close> on the arguments the driver passes: the exponent is a counter converted to
  \<^verbatim>\<open>FT\<close>. For an integral exponent the result is the integer power (also of a negative
  base); otherwise it is the real power.
\<close>

definition std_pow :: "real \<Rightarrow> real \<Rightarrow> real" where
  "std_pow x y = (if y \<in> \<int> then power_int x \<lfloor>y\<rfloor> else x powr y)"

definition StopProbability :: "real \<Rightarrow> real \<Rightarrow> real \<Rightarrow> real \<Rightarrow> real" where
  "StopProbability sizeC np dC l = min (std_pow (1 - sizeC / (np * l * 3)) dC) 1"

text \<open>The formula of the specification, for a number \<open>d\<close> of drawn candidates.\<close>

definition overlook_spec :: "real \<Rightarrow> real \<Rightarrow> nat \<Rightarrow> real \<Rightarrow> real" where
  "overlook_spec c P d L = min 1 ((1 - c / (3 * P * L)) ^ d)"

subsection \<open>Construction: the subset ladder\<close>

text \<open>
  A direct octree is built on a contiguous range \<open>[oct_first, oct_beyond)\<close> of the point
  array and remembers the offset of that range.
\<close>

record Direct_octree =
  oct_first :: nat
  oct_beyond :: nat
  oct_offset :: nat

definition octree_size :: "Direct_octree \<Rightarrow> nat" where
  "octree_size t = oct_beyond t - oct_first t"

definition octree_range :: "Direct_octree \<Rightarrow> nat set" where
  "octree_range t = {oct_first t ..< oct_beyond t}"

text \<open>\<^verbatim>\<open>m_num_subsets = max((int) floor(log(double(N)) / log(2.)) - 9, 2)\<close>\<close>

definition num_subsets :: "nat \<Rightarrow> nat" where
  "num_subsets N = nat (max (\<lfloor>ln (real N) / ln 2\<rfloor> - 9) 2)"

text \<open>
  The loop that chooses, for every \<open>i < subsetSize\<close>, one of the positions \<open>2i\<close> and
  \<open>2i + 1\<close>, clamped to \<open>remainingPoints - 1\<close>.
\<close>

function pick_indices ::
  "nat \<Rightarrow> nat \<Rightarrow> nat \<Rightarrow> nat stream \<Rightarrow> nat list \<Rightarrow> nat list \<times> nat stream" where
  "pick_indices i subsetSize remainingPoints rng indices =
     (if i < subsetSize then
        (let index = shd rng mod 2;
             index = index + 2 * i;
             index = (if index \<ge> remainingPoints then remainingPoints - 1 else index)
         in pick_indices (i + 1) subsetSize remainingPoints (stl rng) (indices[i := index]))
      else (indices, rng))"
  by pat_completeness auto
termination
  by (relation "measure (\<lambda>(i, subsetSize, _). subsetSize - i)") auto

declare pick_indices.simps [simp del]

text \<open>Exchange of \<^verbatim>\<open>*last\<close> and \<^verbatim>\<open>first[j]\<close> through a temporary.\<close>

definition swap_points :: "'p list \<Rightarrow> nat \<Rightarrow> nat \<Rightarrow> 'p list" where
  "swap_points pts lastp j = (let tmp = pts ! lastp in (pts[lastp := pts ! j])[j := tmp])"

text \<open>
  \<^verbatim>\<open>for (int i = subsetSize - 1; i >= 0; i--)\<close>: the first argument is \<open>i + 1\<close>.
  The iterator \<^verbatim>\<open>last\<close> is a position (\<open>lastp\<close>); it is decremented once per moved point and fewer
  than \<open>N\<close> points are moved, so it never passes the start of a non-empty array.
\<close>

fun move_points :: "nat \<Rightarrow> nat list \<Rightarrow> 'p list \<Rightarrow> nat \<Rightarrow> 'p list \<times> nat" where
  "move_points 0 indices pts lastp = (pts, lastp)"
| "move_points (Suc i) indices pts lastp =
     move_points i indices (swap_points pts lastp (indices ! i)) (lastp - 1)"

record 'p ladder_state =
  ls_points :: "'p list"
  ls_rng :: "nat stream"
  ls_last :: nat
  ls_remainingPoints :: nat
  ls_direct_octrees :: "Direct_octree option list"
  ls_availableOctreeSizes :: "int list"

text \<open>The body of \<^verbatim>\<open>for (int s = m_num_subsets - 1; s >= 0; --s)\<close>.\<close>

definition subset_body :: "nat \<Rightarrow> 'p ladder_state \<Rightarrow> 'p ladder_state" where
  "subset_body s st =
     (let remainingPoints = ls_remainingPoints st in
      if s \<noteq> 0 then
        (let subsetSize = remainingPoints div 2;
             (indices, rng) = pick_indices 0 subsetSize remainingPoints (ls_rng st)
                                (replicate remainingPoints 0);
             (pts, lastp) = move_points subsetSize indices (ls_points st) (ls_last st);
             tree = \<lparr>oct_first = lastp + 1, oct_beyond = lastp + subsetSize + 1,
                     oct_offset = remainingPoints - subsetSize\<rparr>
         in \<lparr>ls_points = pts, ls_rng = rng, ls_last = lastp,
             ls_remainingPoints = remainingPoints - subsetSize,
             ls_direct_octrees = (ls_direct_octrees st)[s := Some tree],
             ls_availableOctreeSizes = (ls_availableOctreeSizes st)[s := int subsetSize]\<rparr>)
      else
        (let subsetSize = remainingPoints;
             tree = \<lparr>oct_first = 0, oct_beyond = subsetSize, oct_offset = 0\<rparr>
         in st\<lparr>ls_remainingPoints := remainingPoints - subsetSize,
               ls_direct_octrees := (ls_direct_octrees st)[0 := Some tree],
               ls_availableOctreeSizes := (ls_availableOctreeSizes st)[0 := int subsetSize]\<rparr>))"

text \<open>\<open>subset_loop k\<close> runs the body for \<open>s = k - 1, \<dots>, 0\<close>.\<close>

fun subset_loop :: "nat \<Rightarrow> 'p ladder_state \<Rightarrow> 'p ladder_state" where
  "subset_loop 0 st = st"
| "subset_loop (Suc s) st = subset_loop s (subset_body s st)"


subsection \<open>Shapes, shape kinds and the engine\<close>

text \<open>
  A candidate (class \<^verbatim>\<open>Shape_base\<close>): its fit, the indices of its matched points, its score,
  the index of the next subset, and the interval and estimate of the bound engine
  (read in the source through \<^verbatim>\<open>min_bound()\<close>, \<^verbatim>\<open>max_bound()\<close>, \<^verbatim>\<open>expected_value()\<close>).
\<close>

record 'f Shape =
  m_fit :: 'f
  m_indices :: "nat list"
  m_score :: nat
  m_nb_subset_used :: nat
  min_bound :: real
  max_bound :: real
  expected_value :: real

text \<open>
  A shape kind: \<^verbatim>\<open>create()\<close> followed by \<^verbatim>\<open>compute(indices, \<dots>, epsilon, normal_threshold)\<close>;
  the result is \<open>None\<close> when \<^verbatim>\<open>is_valid()\<close> is false.
\<close>

type_synonym ('p, 'f) Shape_factory = "'p list \<Rightarrow> nat list \<Rightarrow> real \<Rightarrow> real \<Rightarrow> 'f option"

record ('p, 'f) engine =
  m_points :: "'p list"
  m_options :: Parameters
  m_rng :: "nat stream"
  m_direct_octrees :: "Direct_octree option list"
  m_availableOctreeSizes :: "int list"
  m_num_subsets :: nat
  m_shapeIndex :: "int list"
  m_numAvailablePoints :: nat
  m_extractedShapes :: "'f Shape list"
  m_shapeFactories :: "('p, 'f) Shape_factory list"

text \<open>
  The constructor. The argument \<open>rng\<close> is the output sequence of the generator seeded from
  \<^verbatim>\<open>std::random_device\<close>; the constructor's own parameters are the input range and the two
  property maps only. On an empty range the source evaluates \<^verbatim>\<open>log(0.)\<close> and converts the
  result to \<^verbatim>\<open>int\<close>, which is undefined: the model gives \<open>None\<close>. \<^verbatim>\<open>m_options\<close> is not
  initialised by the constructor; the model stores zeros.
\<close>

definition Shape_detection_3 :: "'p list \<Rightarrow> nat stream \<Rightarrow> ('p, 'f) engine option" where
  "Shape_detection_3 pts rng =
     (if pts = [] then None
      else
        (let N = length pts;
             K = num_subsets N;
             st = subset_loop K
                    \<lparr>ls_points = pts, ls_rng = rng, ls_last = N - 1, ls_remainingPoints = N,
                     ls_direct_octrees = replicate K None,
                     ls_availableOctreeSizes = replicate K 0\<rparr>
         in Some \<lparr>m_points = ls_points st,
                  m_options = \<lparr>probability = 0, min_points = 0, epsilon = 0,
                               normal_threshold = 0, cluster_epsilon = 0\<rparr>,
                  m_rng = ls_rng st,
                  m_direct_octrees = ls_direct_octrees st,
                  m_availableOctreeSizes = ls_availableOctreeSizes st,
                  m_num_subsets = K,
                  m_shapeIndex = [],
                  m_numAvailablePoints = N,
                  m_extractedShapes = [],
                  m_shapeFactories = []\<rparr>))"

definition add_shape_factory ::
  "('p, 'f) engine \<Rightarrow> ('p, 'f) Shape_factory \<Rightarrow> ('p, 'f) engine" where
  "add_shape_factory e factory = e\<lparr>m_shapeFactories := m_shapeFactories e @ [factory]\<rparr>"

subsection \<open>Access to the unassigned points\<close>

definition Filter_unassigned_points :: "int list \<Rightarrow> nat \<Rightarrow> bool" where
  "Filter_unassigned_points shapeIndex x =
     (if x < length shapeIndex then shapeIndex ! x = -1 else True)"

definition number_of_unassigned_points :: "('p, 'f) engine \<Rightarrow> nat" where
  "number_of_unassigned_points e = m_numAvailablePoints e"

text \<open>
  The indices between \<^verbatim>\<open>unassigned_points_begin()\<close> and \<^verbatim>\<open>unassigned_points_end()\<close>: the
  counting range \<open>[0, m_shapeIndex.size())\<close> filtered by \<open>Filter_unassigned_points\<close>.
\<close>

definition unassigned_points :: "('p, 'f) engine \<Rightarrow> nat list" where
  "unassigned_points e =
     filter (Filter_unassigned_points (m_shapeIndex e)) [0 ..< length (m_shapeIndex e)]"


subsection \<open>External collaborators of the driver\<close>

text \<open>
  Modelled from the spec: the headers \<^verbatim>\<open>Octree.h\<close> and \<^verbatim>\<open>Shape_base.h\<close>, which the driver
  includes, are missing. What the driver calls from them is collected here as parameters:
  the two point predicates of a shape kind, the connected-component filter
  (\<^verbatim>\<open>Shape_base::connected_component\<close>), the interval of the bound engine
  (\<^verbatim>\<open>Shape_base::compute_bound\<close>; the specification leaves its formula open), the depth of
  the global octree and the drawing of a minimal sample from an octree cell.
  The global octree is built from the point range alone and the driver hands it no generator
  when it asks for a sample, so the draws within a cell are not taken from \<^verbatim>\<open>m_rng\<close>: the
  octree has a sequence of random values of its own, \<open>cell_draws\<close>, which a call reads on from
  where the call before it stopped.
\<close>

record ('p, 'f) Collaborators =
  signed_distance :: "'f \<Rightarrow> 'p \<Rightarrow> real"
  normal_deviation :: "'f \<Rightarrow> 'p \<Rightarrow> real"
  connected_component :: "'f \<Rightarrow> 'p list \<Rightarrow> real \<Rightarrow> nat list \<Rightarrow> nat list"
  bound_engine :: "nat \<Rightarrow> int \<Rightarrow> int \<Rightarrow> real \<times> real \<times> real"
  maxLevel :: "'p list \<Rightarrow> nat"
  drawSamplesFromCellContainingPoint ::
    "'p list \<Rightarrow> 'p \<Rightarrow> nat \<Rightarrow> nat list \<Rightarrow> int list \<Rightarrow> nat \<Rightarrow> nat stream
       \<Rightarrow> bool \<times> nat list \<times> nat stream"
  cell_draws :: "nat stream"

text \<open>
  Modelled from the spec: \<^verbatim>\<open>Octree::score\<close>. Every unassigned point of the tree is tested
  against the candidate's distance and normal-deviation predicates; the matches are appended
  to the candidate's index list and counted.
\<close>

definition point_matches ::
  "('p, 'f) Collaborators \<Rightarrow> 'p list \<Rightarrow> int list \<Rightarrow> 'f \<Rightarrow> real \<Rightarrow> real \<Rightarrow> nat \<Rightarrow> bool" where
  "point_matches X pts shapeIndex f eps tau i =
     (shapeIndex ! i = -1 \<and> \<bar>signed_distance X f (pts ! i)\<bar> \<le> eps
        \<and> normal_deviation X f (pts ! i) \<le> tau)"

definition octree_score ::
  "('p, 'f) Collaborators \<Rightarrow> 'p list \<Rightarrow> nat list \<Rightarrow> 'f Shape \<Rightarrow> int list \<Rightarrow> real \<Rightarrow> real
     \<Rightarrow> nat \<times> 'f Shape" where
  "octree_score X pts tree c shapeIndex eps tau =
     (let matched = filter (point_matches X pts shapeIndex (m_fit c) eps tau) tree
      in (length matched, c\<lparr>m_indices := m_indices c @ matched\<rparr>))"

text \<open>The indices a direct octree stands for; an octree that was never built has none.\<close>

definition direct_octree_indices :: "Direct_octree option \<Rightarrow> nat list" where
  "direct_octree_indices t =
     (case t of None \<Rightarrow> [] | Some t \<Rightarrow> [oct_offset t ..< oct_offset t + octree_size t])"

text \<open>Modelled from the spec: \<^verbatim>\<open>Shape_base::compute_bound(sizeS1, sizeP)\<close>.\<close>

definition compute_bound :: "('p, 'f) Collaborators \<Rightarrow> 'f Shape \<Rightarrow> int \<Rightarrow> int \<Rightarrow> 'f Shape" where
  "compute_bound X c sizeS1 sizeP =
     (let (lo, ex, hi) = bound_engine X (length (m_indices c)) sizeS1 sizeP
      in c\<lparr>min_bound := lo, max_bound := hi, expected_value := ex\<rparr>)"

text \<open>
  Modelled from the spec: \<^verbatim>\<open>Shape_base::update_points\<close> drops the indices that are now
  assigned and recomputes the score.
\<close>

definition update_points :: "int list \<Rightarrow> 'f Shape \<Rightarrow> 'f Shape" where
  "update_points shapeIndex c =
     (let kept = filter (\<lambda>i. shapeIndex ! i = -1) (m_indices c)
      in c\<lparr>m_indices := kept, m_score := length kept\<rparr>)"

definition new_Shape :: "'f \<Rightarrow> 'f Shape" where
  "new_Shape f = \<lparr>m_fit = f, m_indices = [], m_score = 0, m_nb_subset_used = 0,
                  min_bound = 0, max_bound = 0, expected_value = 0\<rparr>"

subsection \<open>Bound refinement\<close>

text \<open>One pass of the \<^verbatim>\<open>do \<dots> while\<close> loop of \<^verbatim>\<open>improveBound\<close>.\<close>

definition improve_step ::
  "('p, 'f) Collaborators \<Rightarrow> ('p, 'f) engine \<Rightarrow> 'f Shape \<times> int \<times> int \<Rightarrow> 'f Shape \<times> int \<times> int" where
  "improve_step X e = (\<lambda>(candidate, numPointsEvaluated, newSampledPoints).
     (let s = m_nb_subset_used candidate;
          (newScore, candidate) =
             octree_score X (m_points e) (direct_octree_indices (m_direct_octrees e ! s))
               candidate (m_shapeIndex e) (epsilon (m_options e)) (normal_threshold (m_options e));
          candidate = candidate\<lparr>m_score := m_score candidate + newScore\<rparr>;
          numPointsEvaluated = numPointsEvaluated + m_availableOctreeSizes e ! s;
          newSampledPoints = newSampledPoints + m_availableOctreeSizes e ! s
      in (candidate\<lparr>m_nb_subset_used := s + 1\<rparr>, numPointsEvaluated, newSampledPoints)))"

function improve_loop ::
  "('p, 'f) Collaborators \<Rightarrow> ('p, 'f) engine \<Rightarrow> nat \<Rightarrow> 'f Shape \<times> int \<times> int
     \<Rightarrow> 'f Shape \<times> int \<times> int" where
  "improve_loop X e min_pts st =
     (let st' = improve_step X e st
      in if snd (snd st') < int min_pts \<and> m_nb_subset_used (fst st') < m_num_subsets e
         then improve_loop X e min_pts st' else st')"
  by pat_completeness auto
termination
proof (relation "measure (\<lambda>(X, e, min_pts, st). m_num_subsets e - m_nb_subset_used (fst st))")
  show "wf (measure (\<lambda>(X, e, min_pts, st). m_num_subsets e - m_nb_subset_used (fst st)))"
    by simp
next
  fix X :: "('p, 'f) Collaborators" and e :: "('p, 'f) engine" and min_pts :: nat
    and st st' :: "'f Shape \<times> int \<times> int"
  assume a: "st' = improve_step X e st"
    and b: "snd (snd st') < int min_pts \<and> m_nb_subset_used (fst st') < m_num_subsets e"
  have "m_nb_subset_used (fst st') = m_nb_subset_used (fst st) + 1"
    unfolding a improve_step_def octree_score_def by (cases st) (simp add: Let_def)
  with b show "((X, e, min_pts, st'), (X, e, min_pts, st))
      \<in> measure (\<lambda>(X, e, min_pts, st). m_num_subsets e - m_nb_subset_used (fst st))"
    by auto
qed

declare improve_loop.simps [simp del]

text \<open>
  \<^verbatim>\<open>improveBound(candidate, _SizeP, max_subset, min_points)\<close>; the comparison of the sampled
  count with \<^verbatim>\<open>min_points\<close> is on non-negative numbers.
\<close>

definition sum_sizes :: "int list \<Rightarrow> nat \<Rightarrow> int" where
  "sum_sizes sizes n = (\<Sum>i \<leftarrow> [0 ..< n]. sizes ! i)"

definition improveBound ::
  "('p, 'f) Collaborators \<Rightarrow> ('p, 'f) engine \<Rightarrow> 'f Shape \<Rightarrow> int \<Rightarrow> nat \<Rightarrow> nat
     \<Rightarrow> bool \<times> 'f Shape" where
  "improveBound X e candidate SizeP max_subset min_pts =
     (if m_nb_subset_used candidate \<ge> max_subset then (False, candidate)
      else if m_nb_subset_used candidate \<ge> m_num_subsets e then (False, candidate)
      else
        (let numPointsEvaluated = sum_sizes (m_availableOctreeSizes e) (m_nb_subset_used candidate);
             (candidate, numPointsEvaluated, newSampledPoints) =
                improve_loop X e min_pts (candidate, numPointsEvaluated, 0);
             candidate = candidate\<lparr>m_score := length (m_indices candidate)\<rparr>
         in (True, compute_bound X candidate numPointsEvaluated SizeP)))"


subsection \<open>The state of the detection driver\<close>

text \<open>
  The engine together with the local variables of \<^verbatim>\<open>detect\<close>, and the random values that
  the global octree has not read yet.
\<close>

record ('p, 'f) detect_state =
  eng :: "('p, 'f) engine"
  octree_draws :: "nat stream"
  candidates :: "'f Shape list"
  bestExp :: real
  numInvalid :: int
  nbNewCandidates :: int
  nbFailedCandidates :: int
  forceExit :: bool

text \<open>\<^verbatim>\<open>m_numAvailablePoints - numInvalid\<close>\<close>

definition available :: "('p, 'f) detect_state \<Rightarrow> int" where
  "available st = int (m_numAvailablePoints (eng st)) - numInvalid st"

definition overlook_probability ::
  "('p, 'f) Collaborators \<Rightarrow> ('p, 'f) detect_state \<Rightarrow> real \<Rightarrow> real" where
  "overlook_probability X st sizeC =
     StopProbability sizeC (real_of_int (available st)) (real_of_int (nbNewCandidates st))
       (real (maxLevel X (m_points (eng st))))"

subsection \<open>Candidate generation\<close>

text \<open>
  The loops of the generation step can run forever (no unassigned point left, or no cell
  that yields a sample), so they are bounded by a fuel argument and return \<open>None\<close> when it
  is used up.
\<close>

fun pick_firstSample :: "nat \<Rightarrow> nat \<Rightarrow> int list \<Rightarrow> nat stream \<Rightarrow> (nat \<times> nat stream) option" where
  "pick_firstSample 0 N shapeIndex rng = None"
| "pick_firstSample (Suc fuel) N shapeIndex rng =
     (if N = 0 then None
      else
        (let firstSample = shd rng mod N
         in if shapeIndex ! firstSample \<noteq> -1 then pick_firstSample fuel N shapeIndex (stl rng)
            else Some (firstSample, stl rng)))"

definition requiredSamples :: nat where
  "requiredSamples = 4"

text \<open>\<^verbatim>\<open>selectRandomOctreeLevel()\<close>: one value of \<^verbatim>\<open>m_rng\<close>.\<close>

definition selectRandomOctreeLevel ::
  "('p, 'f) Collaborators \<Rightarrow> ('p, 'f) engine \<Rightarrow> nat stream \<Rightarrow> nat \<times> nat stream" where
  "selectRandomOctreeLevel X e rng = (shd rng mod (maxLevel X (m_points e) + 1), stl rng)"

text \<open>
  The loop that draws the minimal sample. The first sample and the level are taken from
  \<^verbatim>\<open>m_rng\<close> (\<open>rng\<close>); the octree is given the point, the level, the set of indices, the
  assignment map and the number of samples, and draws within the cell from its own values
  (\<open>cells\<close>).
\<close>

fun draw_sample ::
  "nat \<Rightarrow> ('p, 'f) Collaborators \<Rightarrow> ('p, 'f) engine \<Rightarrow> nat list \<Rightarrow> nat stream \<Rightarrow> nat stream
     \<Rightarrow> (nat list \<times> nat stream \<times> nat stream) option" where
  "draw_sample 0 X e indices rng cells = None"
| "draw_sample (Suc fuel) X e indices rng cells =
     (case pick_firstSample (Suc fuel) (m_numAvailablePoints e) (m_shapeIndex e) rng of
        None \<Rightarrow> None
      | Some (firstSample, rng) \<Rightarrow>
          (let (level, rng) = selectRandomOctreeLevel X e rng;
               (done, indices, cells) =
                  drawSamplesFromCellContainingPoint X (m_points e) (m_points e ! firstSample)
                    level indices (m_shapeIndex e) requiredSamples cells
           in if m_shapeIndex e ! firstSample \<noteq> -1 \<or> \<not> done
              then draw_sample fuel X e indices rng cells
              else Some (indices, rng, cells)))"

text \<open>The body of the loop over the registered shape kinds.\<close>

definition add_candidate ::
  "('p, 'f) Collaborators \<Rightarrow> nat list \<Rightarrow> ('p, 'f) detect_state \<Rightarrow> ('p, 'f) Shape_factory
     \<Rightarrow> ('p, 'f) detect_state" where
  "add_candidate X indices st factory =
     (let e = eng st; options = m_options e
      in case factory (m_points e) indices (epsilon options) (normal_threshold options) of
           None \<Rightarrow> st\<lparr>nbFailedCandidates := nbFailedCandidates st + 1\<rparr>
         | Some f \<Rightarrow>
             (let p = snd (improveBound X e (new_Shape f) (available st) 1 500)
              in if max_bound p \<ge> real (min_points options)
                 then st\<lparr>bestExp := (if bestExp st < expected_value p then expected_value p
                                      else bestExp st),
                         candidates := candidates st @ [p]\<rparr>
                 else st\<lparr>nbFailedCandidates := nbFailedCandidates st + 1\<rparr>))"

text \<open>One pass of the inner \<^verbatim>\<open>do \<dots> while\<close> loop, up to the test of the failure counter.\<close>

definition generate_candidate ::
  "nat \<Rightarrow> ('p, 'f) Collaborators \<Rightarrow> ('p, 'f) detect_state \<Rightarrow> ('p, 'f) detect_state option" where
  "generate_candidate fuel X st =
     (case draw_sample fuel X (eng st) [] (m_rng (eng st)) (octree_draws st) of
        None \<Rightarrow> None
      | Some (indices, rng, cells) \<Rightarrow>
          (let st = st\<lparr>eng := (eng st)\<lparr>m_rng := rng\<rparr>, octree_draws := cells,
                       nbNewCandidates := nbNewCandidates st + 1\<rparr>;
               st = foldl (add_candidate X indices) st (m_shapeFactories (eng st))
           in Some (if nbFailedCandidates st \<ge> 10000 then st\<lparr>forceExit := True\<rparr> else st)))"

definition continue_generation ::
  "('p, 'f) Collaborators \<Rightarrow> ('p, 'f) detect_state \<Rightarrow> bool" where
  "continue_generation X st =
     (\<not> forceExit st
      \<and> overlook_probability X st (bestExp st) > probability (m_options (eng st))
      \<and> overlook_probability X st (real (min_points (m_options (eng st))))
           > probability (m_options (eng st)))"

fun generate_candidates ::
  "nat \<Rightarrow> ('p, 'f) Collaborators \<Rightarrow> ('p, 'f) detect_state \<Rightarrow> ('p, 'f) detect_state option" where
  "generate_candidates 0 X st = None"
| "generate_candidates (Suc fuel) X st =
     (case generate_candidate (Suc fuel) X st of
        None \<Rightarrow> None
      | Some st \<Rightarrow> if continue_generation X st then generate_candidates fuel X st else Some st)"

subsection \<open>Selection of the best candidate\<close>

text \<open>
  The loop over \<^verbatim>\<open>position_stop\<close>, from \<open>size - 2\<close> down to \<^verbatim>\<open>index_worse_candidate\<close>; the
  result carries the value of \<^verbatim>\<open>position_stop\<close> at the exit.
\<close>

function refine_overlapping ::
  "('p, 'f) Collaborators \<Rightarrow> ('p, 'f) engine \<Rightarrow> int \<Rightarrow> int \<Rightarrow> int \<Rightarrow> 'f Shape list \<Rightarrow> bool
     \<Rightarrow> 'f Shape list \<times> bool \<times> int" where
  "refine_overlapping X e SizeP index_worse position_stop cands improved =
     (if position_stop \<ge> index_worse then
        (if min_bound (last cands) > max_bound (cands ! nat position_stop)
         then (cands, improved, position_stop)
         else if max_bound (cands ! nat position_stop) \<le> real (min_points (m_options e))
         then (cands, improved, position_stop)
         else
           (let (r, c) = improveBound X e (cands ! nat position_stop) SizeP (m_num_subsets e)
                           (min_points (m_options e));
                cands = cands[nat position_stop := c];
                improved = (improved \<or> r)
            in if min_bound (last cands) > max_bound (cands ! nat position_stop)
               then (cands, improved, position_stop)
               else refine_overlapping X e SizeP index_worse (position_stop - 1) cands improved))
      else (cands, improved, position_stop))"
  by pat_completeness auto
termination
  by (relation "measure (\<lambda>(X, e, SizeP, index_worse, position_stop, cands, improved).
                   nat (position_stop + 1 - index_worse))") auto

declare refine_overlapping.simps [simp del]

text \<open>
  The \<^verbatim>\<open>while\<close> loop of \<^verbatim>\<open>getBestCandidate\<close>. \<^verbatim>\<open>index_worse_candidate\<close> is an \<^verbatim>\<open>int\<close>
  compared with the unsigned \<open>size - 1\<close>: a negative value compares as a large one and ends the
  loop. \<^verbatim>\<open>std::sort\<close> with \<^verbatim>\<open>Compare_by_max_bound\<close> puts the largest \<open>max_bound\<close> last; the
  order it gives to equal keys is left open by the library, the model keeps their order.
\<close>

fun best_loop ::
  "nat \<Rightarrow> ('p, 'f) Collaborators \<Rightarrow> ('p, 'f) engine \<Rightarrow> int \<Rightarrow> int \<Rightarrow> bool \<Rightarrow> 'f Shape list
     \<Rightarrow> 'f Shape list option" where
  "best_loop 0 X e SizeP index_worse improved cands = None"
| "best_loop (Suc fuel) X e SizeP index_worse improved cands =
     (if 0 \<le> index_worse \<and> index_worse < int (length cands) - 1 \<and> improved then
        (let cands = take (nat index_worse) cands
                       @ sort_key max_bound (drop (nat index_worse) cands);
             b = snd (improveBound X e (last cands) SizeP (m_num_subsets e)
                        (min_points (m_options e)));
             cands = cands[length cands - 1 := b];
             (cands, improved, position_stop) =
                refine_overlapping X e SizeP index_worse (int (length cands) - 2) cands False
         in best_loop fuel X e SizeP position_stop improved cands)
      else Some cands)"

text \<open>The result is the vector of candidates; the best one is its last element.\<close>

definition getBestCandidate ::
  "nat \<Rightarrow> ('p, 'f) Collaborators \<Rightarrow> ('p, 'f) engine \<Rightarrow> 'f Shape list \<Rightarrow> int
     \<Rightarrow> 'f Shape list option" where
  "getBestCandidate fuel X e cands SizeP =
     (if length cands = 1 then Some cands else best_loop fuel X e SizeP 0 True cands)"


subsection \<open>Final verification and commit\<close>

text \<open>
  The best candidate is rescored on the global octree, which holds every point index, with
  the distance tolerance \<open>3 * epsilon\<close>; then the connected-component filter is applied.
\<close>

definition rescore_best ::
  "('p, 'f) Collaborators \<Rightarrow> ('p, 'f) engine \<Rightarrow> 'f Shape \<Rightarrow> 'f Shape" where
  "rescore_best X e best_Candidate =
     (let best_Candidate = best_Candidate\<lparr>m_indices := []\<rparr>;
          (score, best_Candidate) =
             octree_score X (m_points e) [0 ..< length (m_points e)] best_Candidate
               (m_shapeIndex e) (3 * epsilon (m_options e)) (normal_threshold (m_options e));
          best_Candidate = best_Candidate\<lparr>m_score := score\<rparr>
      in best_Candidate\<lparr>m_indices :=
           connected_component X (m_fit best_Candidate) (m_points e)
             (cluster_epsilon (m_options e)) (m_indices best_Candidate)\<rparr>)"

text \<open>\<^verbatim>\<open>assigned_points()\<close> of a shape.\<close>

definition assigned_points :: "'f Shape \<Rightarrow> nat list" where
  "assigned_points c = m_indices c"

text \<open>
  The loop over the direct octrees that decrements the available size of each subset whose
  range holds the index. An octree with points has a root, and one without points holds no
  index, so the test of \<^verbatim>\<open>m_root\<close> is covered by the range test.
\<close>

definition adjust_octree_size :: "Direct_octree option list \<Rightarrow> nat \<Rightarrow> int list \<Rightarrow> nat \<Rightarrow> int list" where
  "adjust_octree_size trees idx sizes j =
     (case trees ! j of
        None \<Rightarrow> sizes
      | Some t \<Rightarrow>
          if oct_offset t \<le> idx \<and> idx - oct_offset t < octree_size t
          then sizes[j := sizes ! j - 1] else sizes)"

text \<open>The body of the loop over the points of the committed candidate.\<close>

definition assign_point ::
  "('p, 'f) engine \<Rightarrow> int \<Rightarrow> int list \<times> int \<times> int list \<Rightarrow> nat \<Rightarrow> int list \<times> int \<times> int list" where
  "assign_point e shape_id = (\<lambda>(shapeIndex, numInvalid, sizes) idx.
     (shapeIndex[idx := shape_id], numInvalid + 1,
      foldl (adjust_octree_size (m_direct_octrees e) idx) sizes [0 ..< m_num_subsets e]))"

text \<open>The commit of the best candidate, the last element of the vector of candidates.\<close>

definition commit :: "('p, 'f) detect_state \<Rightarrow> ('p, 'f) detect_state" where
  "commit st =
     (let e = eng st;
          best_Candidate = last (candidates st);
          extracted = m_extractedShapes e @ [best_Candidate];
          (shapeIndex, numInvalid, sizes) =
             foldl (assign_point e (int (length extracted) - 1))
               (m_shapeIndex e, numInvalid st, m_availableOctreeSizes e)
               (assigned_points best_Candidate)
      in st\<lparr>eng := e\<lparr>m_extractedShapes := extracted, m_shapeIndex := shapeIndex,
                       m_availableOctreeSizes := sizes\<rparr>,
             numInvalid := numInvalid,
             nbNewCandidates := nbNewCandidates st - 1,
             nbFailedCandidates := 0,
             bestExp := 0\<rparr>)"

text \<open>\<^verbatim>\<open>subsetSizes[i]\<close>: the available sizes of the subsets \<open>0, \<dots>, i\<close> added up.\<close>

fun subsetSizes :: "int list \<Rightarrow> nat \<Rightarrow> int" where
  "subsetSizes sizes 0 = sizes ! 0"
| "subsetSizes sizes (Suc i) = subsetSizes sizes i + sizes ! Suc i"

text \<open>
  The update of one pooled candidate after the decision; a deleted candidate is \<open>None\<close>.
  Every pooled candidate has been refined at least once, so \<open>m_nb_subset_used - 1\<close> is an index.
\<close>

definition refresh_candidate ::
  "('p, 'f) Collaborators \<Rightarrow> ('p, 'f) detect_state \<Rightarrow> 'f Shape option \<Rightarrow> 'f Shape option" where
  "refresh_candidate X st c =
     (case c of
        None \<Rightarrow> None
      | Some c \<Rightarrow>
          (let c = update_points (m_shapeIndex (eng st)) c
           in if m_score c < min_points (m_options (eng st)) then None
              else Some (compute_bound X c
                           (subsetSizes (m_availableOctreeSizes (eng st)) (m_nb_subset_used c - 1))
                           (available st))))"

text \<open>The three loops that move the remaining candidates to the front of the vector.\<close>

function skip_present :: "'a option list \<Rightarrow> nat \<Rightarrow> nat \<Rightarrow> nat" where
  "skip_present cs start endp =
     (if cs ! start \<noteq> None \<and> start < endp then skip_present cs (start + 1) endp else start)"
  by pat_completeness auto
termination
  by (relation "measure (\<lambda>(cs, start, endp). endp - start)") auto

function skip_absent :: "'a option list \<Rightarrow> nat \<Rightarrow> nat \<Rightarrow> nat" where
  "skip_absent cs start endp =
     (if cs ! endp = None \<and> start < endp then skip_absent cs start (endp - 1) else endp)"
  by pat_completeness auto
termination
  by (relation "measure (\<lambda>(cs, start, endp). endp - start)") auto

declare skip_present.simps [simp del] skip_absent.simps [simp del]

function compact :: "'a option list \<Rightarrow> nat \<Rightarrow> nat \<Rightarrow> 'a option list \<times> nat" where
  "compact cs start endp =
     (if start < endp then
        (let start = skip_present cs start endp;
             endp = skip_absent cs start endp
         in if cs ! start = None \<and> cs ! endp \<noteq> None \<and> start < endp
            then compact (cs[start := cs ! endp, endp := None]) (start + 1) (endp - 1)
            else compact cs start endp)
      else (cs, endp))"
  by pat_completeness auto
termination
proof (relation "measure (\<lambda>(cs, start, endp). endp - start)")
  show "wf (measure (\<lambda>(cs :: 'a option list, start, endp). endp - start))"
    by simp
next
  fix cs :: "'a option list" and start endp s1 e1 :: nat
  assume lt: "start < endp" and s1: "s1 = skip_present cs start endp"
    and e1: "e1 = skip_absent cs s1 endp"
  have p: "start \<le> skip_present cs start endp" for start
    by (induction cs start endp rule: skip_present.induct)
      (subst skip_present.simps, auto)
  have a: "skip_absent cs s endp \<le> endp" for s
    by (induction cs s endp rule: skip_absent.induct)
      (subst skip_absent.simps, auto)
  {
    assume c: "cs ! s1 = None \<and> cs ! e1 \<noteq> None \<and> s1 < e1"
    have "start \<le> s1" and "e1 \<le> endp"
      using p [of start] a [of s1] s1 e1 by simp_all
    with c have "(e1 - 1) - (s1 + 1) < endp - start"
      by linarith
    then show "((cs[s1 := cs ! e1, e1 := None], s1 + 1, e1 - 1), cs, start, endp)
            \<in> measure (\<lambda>(cs, start, endp). endp - start)"
      by simp
  }
  {
    assume n: "\<not> (cs ! s1 = None \<and> cs ! e1 \<noteq> None \<and> s1 < e1)"
    have p2: "skip_present cs start endp = endp \<or> cs ! skip_present cs start endp = None"
      if "start \<le> endp" for start
      using that
      by (induction cs start endp rule: skip_present.induct)
        (subst (1 2) skip_present.simps, auto)
    have a2: "skip_absent cs s endp \<le> s \<or> cs ! skip_absent cs s endp \<noteq> None" for s
      by (induction cs s endp rule: skip_absent.induct)
        (subst (1 2) skip_absent.simps, auto)
    from p2 [of start] a2 [of s1] a [of s1] n s1 e1 lt have "e1 \<le> s1"
      by auto
    with lt show "((cs, s1, e1), cs, start, endp) \<in> measure (\<lambda>(cs, start, endp). endp - start)"
      by simp
  }
qed

declare compact.simps [simp del]

text \<open>
  The decision on the best candidate, which is the last element of the vector: lines
  from the test of its overlook probability to \<^verbatim>\<open>candidates.resize(end)\<close>.
\<close>

definition commit_decision ::
  "('p, 'f) Collaborators \<Rightarrow> ('p, 'f) detect_state \<Rightarrow> ('p, 'f) detect_state" where
  "commit_decision X st =
     (let best_Candidate = last (candidates st); options = m_options (eng st)
      in if overlook_probability X st (expected_value best_Candidate) \<le> probability options then
           (let keep = (length (assigned_points best_Candidate) \<ge> min_points options);
                pool = (if keep then map Some (butlast (candidates st)) @ [None]
                        else map Some (candidates st));
                st = (if keep then commit st else st);
                pool = map (refresh_candidate X st) (butlast pool) @ [last pool];
                (pool, endp) = compact pool 0 (length pool - 1)
            in st\<lparr>candidates := map the (take endp pool)\<rparr>)
         else st)"

subsection \<open>The main loop\<close>

text \<open>One pass of the outer loop, up to its condition.\<close>

definition main_body ::
  "nat \<Rightarrow> ('p, 'f) Collaborators \<Rightarrow> ('p, 'f) detect_state \<Rightarrow> ('p, 'f) detect_state option" where
  "main_body fuel X st =
     (case generate_candidates fuel X (st\<lparr>bestExp := 0\<rparr>) of
        None \<Rightarrow> None
      | Some st \<Rightarrow>
          if forceExit st then Some st
          else if candidates st = [] then Some st
          else
            (case getBestCandidate fuel X (eng st) (candidates st) (available st) of
               None \<Rightarrow> None
             | Some cands \<Rightarrow>
                 Some (commit_decision X
                         (st\<lparr>candidates :=
                               butlast cands @ [rescore_best X (eng st) (last cands)]\<rparr>))))"

definition continue_detection ::
  "('p, 'f) Collaborators \<Rightarrow> ('p, 'f) detect_state \<Rightarrow> bool" where
  "continue_detection X st =
     (overlook_probability X st (real (min_points (m_options (eng st))))
         > probability (m_options (eng st))
      \<and> real_of_int (available st) \<ge> real (min_points (m_options (eng st))))"

text \<open>The \<^verbatim>\<open>break\<close> on \<^verbatim>\<open>forceExit\<close> leaves the loop without evaluating its condition.\<close>

fun main_loop ::
  "nat \<Rightarrow> ('p, 'f) Collaborators \<Rightarrow> ('p, 'f) detect_state \<Rightarrow> ('p, 'f) detect_state option" where
  "main_loop 0 X st = None"
| "main_loop (Suc fuel) X st =
     (case main_body (Suc fuel) X st of
        None \<Rightarrow> None
      | Some st \<Rightarrow>
          if forceExit st then Some st
          else if continue_detection X st then main_loop fuel X st
          else Some st)"

text \<open>\<^verbatim>\<open>m_shapeIndex.resize(n, -1)\<close>\<close>

definition resize :: "'a list \<Rightarrow> nat \<Rightarrow> 'a \<Rightarrow> 'a list" where
  "resize xs n v = take n xs @ replicate (n - length xs) v"

text \<open>
  The state in which the main loop is entered. The octree's values are those that its source
  yields from the call on.
\<close>

definition initial_state ::
  "('p, 'f) Collaborators \<Rightarrow> ('p, 'f) engine \<Rightarrow> Parameters \<Rightarrow> ('p, 'f) detect_state" where
  "initial_state X e options =
     \<lparr>eng = e\<lparr>m_options := options,
               m_shapeIndex := resize (m_shapeIndex e) (m_numAvailablePoints e) (-1)\<rparr>,
      octree_draws = cell_draws X,
      candidates = [], bestExp = 0, numInvalid = 0, nbNewCandidates = 0,
      nbFailedCandidates = 0, forceExit = False\<rparr>"

text \<open>
  \<^verbatim>\<open>detect(options)\<close>. The result is the engine after the call, \<open>None\<close> when the fuel does
  not suffice. At the end \<^verbatim>\<open>m_numAvailablePoints -= numInvalid\<close>; \<open>numInvalid\<close> counts assigned
  points and does not exceed the number of points.
\<close>

definition detect_run ::
  "nat \<Rightarrow> ('p, 'f) Collaborators \<Rightarrow> ('p, 'f) engine \<Rightarrow> Parameters \<Rightarrow> ('p, 'f) detect_state option" where
  "detect_run fuel X e options = main_loop fuel X (initial_state X e options)"

definition detect ::
  "nat \<Rightarrow> ('p, 'f) Collaborators \<Rightarrow> ('p, 'f) engine \<Rightarrow> Parameters \<Rightarrow> ('p, 'f) engine option" where
  "detect fuel X e options =
     (if length (m_shapeFactories e) = 0 then Some e
      else
        (case detect_run fuel X e options of
           None \<Rightarrow> None
         | Some st \<Rightarrow>
             Some ((eng st)\<lparr>m_numAvailablePoints :=
                     nat (int (m_numAvailablePoints (eng st)) - numInvalid st)\<rparr>)))"


subsection \<open>Closed form of the subset ladder\<close>

text \<open>
  Rounded-up quotient, and the range of positions that subset \<open>s\<close> of \<open>K\<close> receives when
  \<open>N\<close> points are laddered: subset \<open>s > 0\<close> is \<open>[\<lceil>N / 2^(K-s)\<rceil>, \<lceil>N / 2^(K-1-s)\<rceil>)\<close> and
  subset \<open>0\<close> is \<open>[0, \<lceil>N / 2^(K-1)\<rceil>)\<close>.
\<close>

definition ceil_div :: "nat \<Rightarrow> nat \<Rightarrow> nat" where
  "ceil_div n d = (n + d - 1) div d"

definition ladder_start :: "nat \<Rightarrow> nat \<Rightarrow> nat \<Rightarrow> nat" where
  "ladder_start N K s = (if s = 0 then 0 else ceil_div N (2 ^ (K - s)))"

definition ladder_beyond :: "nat \<Rightarrow> nat \<Rightarrow> nat \<Rightarrow> nat" where
  "ladder_beyond N K s = ceil_div N (2 ^ (K - 1 - s))"

definition ladder_tree :: "nat \<Rightarrow> nat \<Rightarrow> nat \<Rightarrow> Direct_octree" where
  "ladder_tree N K s = \<lparr>oct_first = ladder_start N K s, oct_beyond = ladder_beyond N K s,
                         oct_offset = ladder_start N K s\<rparr>"

text \<open>The point indices that belong to subset \<open>s\<close> of an engine.\<close>

definition subset_indices :: "('p, 'f) engine \<Rightarrow> nat \<Rightarrow> nat set" where
  "subset_indices e s = set (direct_octree_indices (m_direct_octrees e ! s))"

subsection \<open>A small point cloud on a line\<close>

text \<open>
  Four points on a line, three of them at the origin; a shape kind that places a shape at
  the first sampled point; collaborators that measure the distance along the line, keep
  every matched point in one component and give the interval that has collapsed to the
  point estimate \<open>matched * P / S\<close>.
\<close>

definition line_points :: "real list" where
  "line_points = [0, 0, 0, 10]"

definition line_collaborators :: "(real, real) Collaborators" where
  "line_collaborators =
     \<lparr>signed_distance = (\<lambda>f p. p - f),
      normal_deviation = (\<lambda>f p. 0),
      connected_component = (\<lambda>f pts cluster_eps idxs. idxs),
      bound_engine = (\<lambda>n S P. if S = 0 then (0, 0, 0)
                               else (let x = real n * real_of_int P / real_of_int S
                                     in (x, x, x))),
      maxLevel = (\<lambda>pts. 1),
      drawSamplesFromCellContainingPoint =
        (\<lambda>pts p level indices shapeIndex k cells.
           (True, take k (filter (\<lambda>i. shapeIndex ! i = -1) [0 ..< length pts]), stl cells)),
      cell_draws = sconst 0\<rparr>"

definition line_kind :: "(real, real) Shape_factory" where
  "line_kind pts indices eps tau = (case indices of [] \<Rightarrow> None | i # _ \<Rightarrow> Some (pts ! i))"

definition line_options :: Parameters where
  "line_options = \<lparr>probability = 4 / 5, min_points = 3, epsilon = 1, normal_threshold = 1,
                    cluster_epsilon = 1\<rparr>"

text \<open>The engine that the constructor builds on these points when every draw is odd.\<close>

definition line_engine :: "(real, real) engine" where
  "line_engine =
     \<lparr>m_points = [0, 0, 0, 10],
      m_options = \<lparr>probability = 0, min_points = 0, epsilon = 0, normal_threshold = 0,
                   cluster_epsilon = 0\<rparr>,
      m_rng = sconst 1,
      m_direct_octrees = [Some \<lparr>oct_first = 0, oct_beyond = 2, oct_offset = 0\<rparr>,
                          Some \<lparr>oct_first = 2, oct_beyond = 4, oct_offset = 2\<rparr>],
      m_availableOctreeSizes = [2, 2],
      m_num_subsets = 2,
      m_shapeIndex = [],
      m_numAvailablePoints = 4,
      m_extractedShapes = [],
      m_shapeFactories = []\<rparr>"

text \<open>An engine on 4097 coincident points.\<close>

definition cloud_4097 :: "(real, real) engine" where
  "cloud_4097 = the (Shape_detection_3 (replicate 4097 0) (sconst 0))"

subsection \<open>Invariants of the driver\<close>

text \<open>The assignment map after the indices \<open>idxs\<close> have been given to a shape.\<close>

definition mark_assigned :: "int list \<Rightarrow> int \<Rightarrow> nat list \<Rightarrow> int list" where
  "mark_assigned shapeIndex shape_id idxs = foldl (\<lambda>s i. s[i := shape_id]) shapeIndex idxs"

text \<open>
  Every index that an extracted shape claims lies in the assignment map and is mapped to the
  position of that shape in the list of extracted shapes.
\<close>

definition assignment_consistent :: "('p, 'f) engine \<Rightarrow> bool" where
  "assignment_consistent e =
     (\<forall>k<length (m_extractedShapes e). \<forall>i\<in>set (assigned_points (m_extractedShapes e ! k)).
        i < length (m_shapeIndex e) \<and> m_shapeIndex e ! i = int k)"

text \<open>Every point that an extracted shape claims passes the tests of the final verification.\<close>

definition claims_within_tolerance :: "('p, 'f) Collaborators \<Rightarrow> ('p, 'f) engine \<Rightarrow> bool" where
  "claims_within_tolerance X e =
     (\<forall>S\<in>set (m_extractedShapes e). \<forall>i\<in>set (assigned_points S).
        \<bar>signed_distance X (m_fit S) (m_points e ! i)\<bar> \<le> 3 * epsilon (m_options e)
        \<and> normal_deviation X (m_fit S) (m_points e ! i) \<le> normal_threshold (m_options e))"

subsection \<open>A detection run on the small point cloud\<close>

text \<open>
  The engine of the small point cloud with the shape kind registered, the engine and the
  states that \<open>detect\<close> goes through on it, and the result: one shape at the origin that
  claims the three points there.
\<close>

definition line_ready :: "(real, real) engine" where
  "line_ready = add_shape_factory line_engine line_kind"

definition line_shape :: "real Shape" where
  "line_shape = \<lparr>m_fit = 0, m_indices = [0, 1, 2], m_score = 3, m_nb_subset_used = 2,
                  min_bound = 3, max_bound = 3, expected_value = 3\<rparr>"

definition line_started :: "(real, real) engine" where
  "line_started = line_ready\<lparr>m_options := line_options, m_shapeIndex := [-1, -1, -1, -1]\<rparr>"

definition line_state0 :: "(real, real) detect_state" where
  "line_state0 = \<lparr>eng = line_started, octree_draws = sconst 0, candidates = [], bestExp = 0,
      numInvalid = 0, nbNewCandidates = 0, nbFailedCandidates = 0, forceExit = False\<rparr>"

definition line_state1 :: "(real, real) detect_state" where
  "line_state1 = \<lparr>eng = line_started, octree_draws = sconst 0, candidates = [line_shape],
      bestExp = 3, numInvalid = 0, nbNewCandidates = 1, nbFailedCandidates = 0,
      forceExit = False\<rparr>"

definition line_committed :: "(real, real) engine" where
  "line_committed = line_started\<lparr>m_extractedShapes := [line_shape],
      m_shapeIndex := [0, 0, 0, -1], m_availableOctreeSizes := [0, 1]\<rparr>"

definition line_state2 :: "(real, real) detect_state" where
  "line_state2 = \<lparr>eng = line_committed, octree_draws = sconst 0, candidates = [], bestExp = 0,
      numInvalid = 3, nbNewCandidates = 0, nbFailedCandidates = 0, forceExit = False\<rparr>"

definition line_detected :: "(real, real) engine" where
  "line_detected = line_committed\<lparr>m_numAvailablePoints := 1\<rparr>"

subsection \<open>A run that stalls\<close>





subsection \<open>Two clusters on a line\<close>

text \<open>
  Eight points on a line: a cluster near the origin and three points at 100. The shape kind
  \<open>sample_kind j\<close> places a shape at the sampled point number \<open>j\<close>. The engine is the one that
  the constructor builds on these points when every draw is odd; three shape kinds are
  registered.
\<close>

definition cluster_points :: "real list" where
  "cluster_points = [0, 0, 100, 1, 2, 100, 0, 100]"

definition sample_kind :: "nat \<Rightarrow> (real, real) Shape_factory" where
  "sample_kind j pts indices eps tau =
     (if j < length indices then Some (pts ! (indices ! j)) else None)"

definition cluster_options :: Parameters where
  "cluster_options = \<lparr>probability = 9 / 10, min_points = 2, epsilon = 1, normal_threshold = 1,
                       cluster_epsilon = 1\<rparr>"

definition cluster_engine :: "(real, real) engine" where
  "cluster_engine =
     \<lparr>m_points = [0, 2, 100, 0, 0, 1, 100, 100],
      m_options = \<lparr>probability = 0, min_points = 0, epsilon = 0, normal_threshold = 0,
                   cluster_epsilon = 0\<rparr>,
      m_rng = sconst 1,
      m_direct_octrees = [Some \<lparr>oct_first = 0, oct_beyond = 4, oct_offset = 0\<rparr>,
                          Some \<lparr>oct_first = 4, oct_beyond = 8, oct_offset = 4\<rparr>],
      m_availableOctreeSizes = [4, 4],
      m_num_subsets = 2,
      m_shapeIndex = [],
      m_numAvailablePoints = 8,
      m_extractedShapes = [],
      m_shapeFactories = []\<rparr>"

definition cluster_ready :: "(real, real) engine" where
  "cluster_ready = foldl add_shape_factory cluster_engine
                     [sample_kind 0, sample_kind 1, sample_kind 2]"

definition cluster_started :: "(real, real) engine" where
  "cluster_started = cluster_ready\<lparr>m_options := cluster_options,
                                   m_shapeIndex := [-1, -1, -1, -1, -1, -1, -1, -1]\<rparr>"

text \<open>
  The candidates of the first pass, with the points that each matches within \<open>epsilon\<close>, and
  the claim of the best one after its final verification with \<open>3 * epsilon\<close>.
\<close>

definition shape_near :: "real Shape" where
  "shape_near = \<lparr>m_fit = 0, m_indices = [0, 3, 4, 5], m_score = 4, m_nb_subset_used = 2,
                  min_bound = 4, max_bound = 4, expected_value = 4\<rparr>"

definition shape_between :: "real Shape" where
  "shape_between = \<lparr>m_fit = 2, m_indices = [1, 5], m_score = 2, m_nb_subset_used = 2,
                     min_bound = 2, max_bound = 2, expected_value = 2\<rparr>"

definition shape_far :: "real Shape" where
  "shape_far = \<lparr>m_fit = 100, m_indices = [2, 6, 7], m_score = 3, m_nb_subset_used = 2,
                 min_bound = 3, max_bound = 3, expected_value = 3\<rparr>"

definition shape_claim :: "real Shape" where
  "shape_claim = shape_near\<lparr>m_indices := [0, 1, 3, 4, 5], m_score := 5\<rparr>"

text \<open>
  The states of the first pass of the main loop: at its start, after the generation of
  candidates, before the decision on the best candidate, and at its end.
\<close>

definition cluster_state0 :: "(real, real) detect_state" where
  "cluster_state0 = \<lparr>eng = cluster_started, octree_draws = sconst 0, candidates = [],
      bestExp = 0, numInvalid = 0, nbNewCandidates = 0, nbFailedCandidates = 0,
      forceExit = False\<rparr>"

definition cluster_state1 :: "(real, real) detect_state" where
  "cluster_state1 = cluster_state0\<lparr>candidates := [shape_near, shape_between, shape_far],
      bestExp := 4, nbNewCandidates := 1\<rparr>"

definition cluster_state2 :: "(real, real) detect_state" where
  "cluster_state2 = cluster_state1\<lparr>candidates := [shape_between, shape_far, shape_claim]\<rparr>"

definition cluster_committed :: "(real, real) engine" where
  "cluster_committed = cluster_started\<lparr>m_extractedShapes := [shape_claim],
      m_shapeIndex := [0, 0, -1, 0, 0, 0, -1, -1], m_availableOctreeSizes := [1, 2]\<rparr>"

definition cluster_state3 :: "(real, real) detect_state" where
  "cluster_state3 = \<lparr>eng = cluster_committed, octree_draws = sconst 0, candidates = [],
      bestExp = 0, numInvalid = 5, nbNewCandidates = 0, nbFailedCandidates = 0,
      forceExit = False\<rparr>"

section \<open>Properties\<close>

subsection \<open>Arithmetic of the ladder\<close>

lemma std_pow_of_nat: "std_pow x (real d) = x ^ d"
  by (simp add: std_pow_def)

lemma num_subsets_floorlog:
  "0 < N \<Longrightarrow> num_subsets N = nat (max (int (floorlog 2 N) - 10) 2)"
  by (simp add: num_subsets_def floorlog_def log_def)

lemma ceil_div_half: "ceil_div (ceil_div R 2) (2 ^ j) = ceil_div R (2 ^ Suc j)"
proof -
  have "(R + 2 * 2 ^ j - 1) div 2 = (R + 1) div 2 + 2 ^ j - 1"
  proof -
    obtain m :: nat where m: "2 ^ j = Suc m"
      by (metis not0_implies_Suc power_not_zero zero_neq_numeral)
    have "R + 2 * 2 ^ j - 1 = (R + 1) + 2 * (2 ^ j - 1)"
      unfolding m by simp
    then show ?thesis by simp
  qed
  then show ?thesis
    by (simp add: ceil_div_def div_mult2_eq)
qed

lemma move_points_last: "snd (move_points n indices pts lastp) = lastp - n"
  by (induction n arbitrary: pts lastp) simp_all

lemma length_swap_points [simp]: "length (swap_points pts a b) = length pts"
  by (simp add: swap_points_def)

lemma mset_swap_points:
  "a < length pts \<Longrightarrow> b < length pts \<Longrightarrow> mset (swap_points pts a b) = mset pts"
  by (simp add: swap_points_def Let_def mset_swap)

lemma length_move_points [simp]: "length (fst (move_points n indices pts lastp)) = length pts"
  by (induction n arbitrary: pts lastp) simp_all

lemma mset_move_points:
  "\<forall>i<n. indices ! i < length pts \<Longrightarrow> lastp < length pts \<Longrightarrow>
   mset (fst (move_points n indices pts lastp)) = mset pts"
proof (induction n arbitrary: pts lastp)
  case 0
  then show ?case by simp
next
  case (Suc n)
  have "mset (fst (move_points n indices (swap_points pts lastp (indices ! n)) (lastp - 1)))
        = mset (swap_points pts lastp (indices ! n))"
    using Suc.prems by (intro Suc.IH) auto
  then show ?case
    using Suc.prems by (simp add: mset_swap_points)
qed

lemma pick_indices_length:
  "length (fst (pick_indices i ss rem rng ind)) = length ind"
  by (induction i ss rem rng ind rule: pick_indices.induct)
    (subst pick_indices.simps, simp add: Let_def)

lemma pick_indices_bound:
  "0 < rem \<Longrightarrow> ss \<le> length ind \<Longrightarrow> \<forall>j<i. ind ! j < rem \<Longrightarrow>
   \<forall>j<ss. fst (pick_indices i ss rem rng ind) ! j < rem"
proof (induction i ss rem rng ind rule: pick_indices.induct)
  case (1 i subsetSize remainingPoints rng indices)
  show ?case
  proof (cases "i < subsetSize")
    case True
    let ?index = "(if shd rng mod 2 + 2 * i \<ge> remainingPoints then remainingPoints - 1 else shd rng mod 2 + 2 * i)"
    have b: "?index < remainingPoints" using "1.prems"(1) by auto
    have "\<forall>j<subsetSize. fst (pick_indices (i + 1) subsetSize remainingPoints (stl rng) (indices[i := ?index])) ! j < remainingPoints"
      using True "1.prems" b
      by (intro "1.IH"[OF True refl refl refl]) (simp_all add: nth_list_update less_Suc_eq)
    then show ?thesis
      using True by (subst pick_indices.simps) (simp add: Let_def)
  next
    case False
    then show ?thesis using "1.prems"
      by (subst pick_indices.simps) auto
  qed
qed


lemma move_points_eq:
  "move_points n indices pts lastp = (a, b) \<Longrightarrow> b = lastp - n"
  by (metis move_points_last snd_conv)

lemma subset_body_remaining:
  "ls_remainingPoints (subset_body s st) =
     (if s \<noteq> 0 then ls_remainingPoints st - ls_remainingPoints st div 2 else 0)"
  by (simp add: subset_body_def Let_def split: prod.splits)

lemma subset_body_last:
  "ls_last (subset_body s st) =
     (if s \<noteq> 0 then ls_last st - ls_remainingPoints st div 2 else ls_last st)"
  by (auto simp: subset_body_def Let_def split: prod.splits dest: move_points_eq)

lemma subset_body_octrees:
  "ls_direct_octrees (subset_body s st) =
     (ls_direct_octrees st)[s :=
        Some (if s \<noteq> 0
              then \<lparr>oct_first = ls_last st - ls_remainingPoints st div 2 + 1,
                    oct_beyond = ls_last st - ls_remainingPoints st div 2 + ls_remainingPoints st div 2 + 1,
                    oct_offset = ls_remainingPoints st - ls_remainingPoints st div 2\<rparr>
              else \<lparr>oct_first = 0, oct_beyond = ls_remainingPoints st, oct_offset = 0\<rparr>)]"
  by (auto simp: subset_body_def Let_def split: prod.splits dest: move_points_eq)

lemma subset_body_sizes:
  "ls_availableOctreeSizes (subset_body s st) =
     (ls_availableOctreeSizes st)[s :=
        int (if s \<noteq> 0 then ls_remainingPoints st div 2 else ls_remainingPoints st)]"
  by (auto simp: subset_body_def Let_def split: prod.splits)

lemma ceil_div_2: "ceil_div R 2 = R - R div 2"
  by (simp add: ceil_div_def)

lemma ceil_div_1 [simp]: "ceil_div R (Suc 0) = R"
  by (simp add: ceil_div_def)

lemma subset_loop_trees:
  assumes "ls_remainingPoints st = R" and "0 < R" and "ls_last st + 1 = R"
    and "k \<le> length (ls_direct_octrees st)"
  shows "length (ls_direct_octrees (subset_loop k st)) = length (ls_direct_octrees st)
       \<and> (\<forall>s<k. ls_direct_octrees (subset_loop k st) ! s = Some (ladder_tree R k s))
       \<and> (\<forall>s\<ge>k. ls_direct_octrees (subset_loop k st) ! s = ls_direct_octrees st ! s)"
  using assms
proof (induction k arbitrary: st R)
  case 0
  then show ?case by simp
next
  case (Suc k)
  let ?st1 = "subset_body k st"
  show ?case
  proof (cases "k = 0")
    case True
    then show ?thesis
      using Suc.prems
      by (auto simp: subset_body_octrees ladder_tree_def ladder_start_def ladder_beyond_def
          Suc_le_eq)
  next
    case False
    have r1: "ls_remainingPoints ?st1 = ceil_div R 2"
      using False Suc.prems by (simp add: subset_body_remaining ceil_div_2)
    have pos: "0 < ceil_div R 2"
      using Suc.prems(2) by (simp add: ceil_div_2)
    have l1: "ls_last ?st1 + 1 = ceil_div R 2"
      using False Suc.prems by (simp add: subset_body_last ceil_div_2; presburger?)
    have len1: "length (ls_direct_octrees ?st1) = length (ls_direct_octrees st)"
      by (simp add: subset_body_octrees)
    have k1: "k \<le> length (ls_direct_octrees ?st1)"
      using Suc.prems(4) len1 by simp
    note IH = Suc.IH [OF r1 pos l1 k1]
    have tk: "ls_direct_octrees ?st1 ! k = Some (ladder_tree R (Suc k) k)"
    proof -
      have "ls_last st = R - 1" using Suc.prems by simp
      moreover have "R - 1 - R div 2 + 1 = R - R div 2" using Suc.prems(2) by presburger
      moreover have "R - 1 - R div 2 + R div 2 + 1 = R" using Suc.prems(2) by presburger
      ultimately show ?thesis
        using False Suc.prems
        by (simp add: subset_body_octrees ladder_tree_def ladder_start_def ladder_beyond_def ceil_div_2)
    qed
    have low: "ladder_tree (ceil_div R 2) k s = ladder_tree R (Suc k) s" if "s < k" for s
    proof -
      have "ceil_div (ceil_div R 2) (2 ^ (k - s)) = ceil_div R (2 ^ (Suc k - s))"
        using that by (simp add: ceil_div_half Suc_diff_le)
      moreover have "ceil_div (ceil_div R 2) (2 ^ (k - 1 - s)) = ceil_div R (2 ^ (k - s))"
        using that by (metis Suc_diff_Suc ceil_div_half diff_Suc_eq_diff_pred diff_commute)
      ultimately show ?thesis
        by (simp add: ladder_tree_def ladder_start_def ladder_beyond_def)
    qed
    show ?thesis
      using IH tk low len1
      by (auto simp: less_Suc_eq subset_body_octrees)
  qed
qed


lemma subset_loop_sizes:
  assumes "ls_remainingPoints st = R" and "0 < R"
    and "k \<le> length (ls_availableOctreeSizes st)"
  shows "length (ls_availableOctreeSizes (subset_loop k st)) = length (ls_availableOctreeSizes st)
       \<and> (\<forall>s<k. ls_availableOctreeSizes (subset_loop k st) ! s
                  = int (octree_size (ladder_tree R k s)))
       \<and> (\<forall>s\<ge>k. ls_availableOctreeSizes (subset_loop k st) ! s
                  = ls_availableOctreeSizes st ! s)"
  using assms
proof (induction k arbitrary: st R)
  case 0
  then show ?case by simp
next
  case (Suc k)
  let ?st1 = "subset_body k st"
  show ?case
  proof (cases "k = 0")
    case True
    then show ?thesis
      using Suc.prems
      by (auto simp: subset_body_sizes ladder_tree_def ladder_start_def ladder_beyond_def
          octree_size_def Suc_le_eq)
  next
    case False
    have r1: "ls_remainingPoints ?st1 = ceil_div R 2"
      using False Suc.prems by (simp add: subset_body_remaining ceil_div_2)
    have pos: "0 < ceil_div R 2"
      using Suc.prems(2) by (simp add: ceil_div_2)
    have len1: "length (ls_availableOctreeSizes ?st1) = length (ls_availableOctreeSizes st)"
      by (simp add: subset_body_sizes)
    have k1: "k \<le> length (ls_availableOctreeSizes ?st1)"
      using Suc.prems(3) len1 by simp
    note IH = Suc.IH [OF r1 pos k1]
    have tk: "ls_availableOctreeSizes ?st1 ! k = int (octree_size (ladder_tree R (Suc k) k))"
      using False Suc.prems
      by (simp add: subset_body_sizes ladder_tree_def ladder_start_def ladder_beyond_def
          ceil_div_2 octree_size_def)
    have low: "ladder_tree (ceil_div R 2) k s = ladder_tree R (Suc k) s" if "s < k" for s
    proof -
      have "ceil_div (ceil_div R 2) (2 ^ (k - s)) = ceil_div R (2 ^ (Suc k - s))"
        using that by (simp add: ceil_div_half Suc_diff_le)
      moreover have "ceil_div (ceil_div R 2) (2 ^ (k - 1 - s)) = ceil_div R (2 ^ (k - s))"
        using that by (metis Suc_diff_Suc ceil_div_half diff_Suc_eq_diff_pred diff_commute)
      ultimately show ?thesis
        by (simp add: ladder_tree_def ladder_start_def ladder_beyond_def)
    qed
    show ?thesis
      using IH tk low len1
      by (auto simp: less_Suc_eq subset_body_sizes)
  qed
qed

lemma subset_body_points:
  "ls_points (subset_body s st) =
     (if s \<noteq> 0
      then fst (move_points (ls_remainingPoints st div 2)
                 (fst (pick_indices 0 (ls_remainingPoints st div 2) (ls_remainingPoints st)
                         (ls_rng st) (replicate (ls_remainingPoints st) 0)))
                 (ls_points st) (ls_last st))
      else ls_points st)"
  by (auto simp: subset_body_def Let_def split: prod.splits)

lemma subset_body_mset:
  assumes "0 < ls_remainingPoints st" and "ls_last st + 1 = ls_remainingPoints st"
    and "ls_remainingPoints st \<le> length (ls_points st)"
  shows "mset (ls_points (subset_body s st)) = mset (ls_points st)"
proof (cases "s = 0")
  case True
  then show ?thesis by (simp add: subset_body_points)
next
  case False
  let ?R = "ls_remainingPoints st"
  let ?ind = "fst (pick_indices 0 (?R div 2) ?R (ls_rng st) (replicate ?R 0))"
  have "\<forall>j<?R div 2. ?ind ! j < ?R"
    using assms(1) by (intro pick_indices_bound) simp_all
  then have "\<forall>j<?R div 2. ?ind ! j < length (ls_points st)"
    using assms(3) by fastforce
  moreover have "ls_last st < length (ls_points st)"
    using assms by simp
  ultimately show ?thesis
    using False by (simp add: subset_body_points mset_move_points)
qed

lemma subset_body_length:
  "length (ls_points (subset_body s st)) = length (ls_points st)"
  by (simp add: subset_body_points)

lemma subset_loop_mset:
  assumes "0 < ls_remainingPoints st" and "ls_last st + 1 = ls_remainingPoints st"
    and "ls_remainingPoints st \<le> length (ls_points st)"
  shows "mset (ls_points (subset_loop k st)) = mset (ls_points st)"
  using assms
proof (induction k arbitrary: st)
  case 0
  then show ?case by simp
next
  case (Suc k)
  show ?case
  proof (cases "k = 0")
    case True
    then show ?thesis by (simp add: subset_body_points)
  next
    case False
    have "mset (ls_points (subset_loop k (subset_body k st))) = mset (ls_points (subset_body k st))"
      using Suc.prems False
      by (intro Suc.IH; simp add: subset_body_remaining subset_body_last subset_body_length;
          presburger)
    then show ?thesis
      using Suc.prems by (simp add: subset_body_mset)
  qed
qed


lemma ceil_div_bounds:
  assumes "0 < d"
  shows "N \<le> ceil_div N d * d" and "ceil_div N d * d < N + d"
proof -
  let ?a = "N + d - 1"
  have e: "?a div d * d + ?a mod d = ?a" by simp
  have r: "?a mod d < d" using assms by simp
  show "N \<le> ceil_div N d * d" unfolding ceil_div_def using e r assms by linarith
  show "ceil_div N d * d < N + d" unfolding ceil_div_def using e r assms by linarith
qed

lemma ceil_div_double:
  assumes "0 < d"
  shows "ceil_div N (2 * d) = (ceil_div N d + 1) div 2"
proof -
  have "(N + 2 * d - 1) div (d * 2) = (N + 2 * d - 1) div d div 2"
    by (rule div_mult2_eq)
  moreover have "N + 2 * d - 1 = (N + d - 1) + d" using assms by simp
  then have "(N + 2 * d - 1) div d = (N + d - 1) div d + 1"
    using assms by (simp only: div_add_self2)
  ultimately show ?thesis by (simp add: ceil_div_def mult.commute)
qed

lemma ceil_div_pow_antimono: "i \<le> j \<Longrightarrow> ceil_div N (2 ^ j) \<le> ceil_div N (2 ^ i)"
proof (induction j)
  case 0
  then show ?case by simp
next
  case (Suc j)
  show ?case
  proof (cases "i = Suc j")
    case True
    then show ?thesis by simp
  next
    case False
    then have "ceil_div N (2 ^ j) \<le> ceil_div N (2 ^ i)" using Suc by simp
    moreover have "ceil_div N (2 ^ Suc j) \<le> ceil_div N (2 ^ j)"
      using ceil_div_double [of "2 ^ j" N] by simp
    ultimately show ?thesis by simp
  qed
qed

lemma ladder_beyond_mono: "s \<le> s' \<Longrightarrow> ladder_beyond N K s \<le> ladder_beyond N K s'"
  unfolding ladder_beyond_def by (rule ceil_div_pow_antimono) simp

lemma ladder_start_beyond: "0 < s \<Longrightarrow> s < K \<Longrightarrow> ladder_start N K s = ladder_beyond N K (s - 1)"
  by (simp add: ladder_start_def ladder_beyond_def)

lemma ladder_start_le_beyond: "s < K \<Longrightarrow> ladder_start N K s \<le> ladder_beyond N K s"
proof (cases "s = 0")
  case True
  then show ?thesis by (simp add: ladder_start_def)
next
  case False
  assume "s < K"
  with False have "ladder_start N K s = ladder_beyond N K (s - 1)"
    by (simp add: ladder_start_beyond)
  also have "\<dots> \<le> ladder_beyond N K s" by (rule ladder_beyond_mono) simp
  finally show ?thesis .
qed

lemma ladder_beyond_top: "0 < K \<Longrightarrow> ladder_beyond N K (K - 1) = N"
  by (simp add: ladder_beyond_def)

lemma ladder_indices:
  "s < K \<Longrightarrow> set (direct_octree_indices (Some (ladder_tree N K s)))
     = {ladder_start N K s ..< ladder_beyond N K s}"
  using ladder_start_le_beyond [of s K N]
  by (simp add: direct_octree_indices_def ladder_tree_def octree_size_def)

lemma ladder_disjoint:
  assumes "s < s'" and "s' < K"
  shows "{ladder_start N K s ..< ladder_beyond N K s}
           \<inter> {ladder_start N K s' ..< ladder_beyond N K s'} = {}"
proof -
  have "ladder_beyond N K s \<le> ladder_beyond N K (s' - 1)"
    using assms by (intro ladder_beyond_mono) simp
  then have "ladder_beyond N K s \<le> ladder_start N K s'"
    using assms by (simp add: ladder_start_beyond)
  then show ?thesis by auto
qed

lemma ladder_cover:
  assumes "0 < K"
  shows "(\<Union>s<K. {ladder_start N K s ..< ladder_beyond N K s}) = {0 ..< N}"
proof
  show "(\<Union>s<K. {ladder_start N K s ..< ladder_beyond N K s}) \<subseteq> {0 ..< N}"
  proof
    fix x assume "x \<in> (\<Union>s<K. {ladder_start N K s ..< ladder_beyond N K s})"
    then obtain s where s: "s < K" "x < ladder_beyond N K s" by auto
    have "ladder_beyond N K s \<le> ladder_beyond N K (K - 1)"
      using s(1) by (intro ladder_beyond_mono) simp
    with s assms show "x \<in> {0 ..< N}" using ladder_beyond_top [of K N] by simp
  qed
  show "{0 ..< N} \<subseteq> (\<Union>s<K. {ladder_start N K s ..< ladder_beyond N K s})"
  proof
    fix x assume "x \<in> {0 ..< N}"
    then have top: "x < ladder_beyond N K (K - 1)" using assms ladder_beyond_top [of K N] by simp
    define s where "s = (LEAST s. x < ladder_beyond N K s)"
    have s1: "x < ladder_beyond N K s" unfolding s_def using top by (rule LeastI)
    have s2: "s \<le> K - 1" unfolding s_def using top by (rule Least_le)
    have "ladder_start N K s \<le> x"
    proof (cases "s = 0")
      case True
      then show ?thesis by (simp add: ladder_start_def)
    next
      case False
      then have "\<not> x < ladder_beyond N K (s - 1)"
        unfolding s_def by (metis diff_less not_less_Least zero_less_one not_gr_zero)
      then show ?thesis using False s2 assms by (simp add: ladder_start_beyond)
    qed
    with s1 s2 assms show "x \<in> (\<Union>s<K. {ladder_start N K s ..< ladder_beyond N K s})"
      by (auto intro!: bexI [of _ s])
  qed
qed

lemma ladder_size_0: "0 < K \<Longrightarrow> octree_size (ladder_tree N K 0) = ceil_div N (2 ^ (K - 1))"
  by (simp add: octree_size_def ladder_tree_def ladder_start_def ladder_beyond_def)

lemma ladder_size_pos:
  assumes "0 < s" and "s < K"
  shows "octree_size (ladder_tree N K s) = ceil_div N (2 ^ (K - 1 - s)) div 2"
proof -
  have "K - s = Suc (K - 1 - s)" using assms by simp
  then have "ceil_div N (2 ^ (K - s)) = (ceil_div N (2 ^ (K - 1 - s)) + 1) div 2"
    using ceil_div_double [of "2 ^ (K - 1 - s)" N] by simp
  then show ?thesis
    using assms
    by (simp add: octree_size_def ladder_tree_def ladder_start_def ladder_beyond_def; presburger)
qed

lemma half_ceil_div_bounds:
  assumes "0 < d"
  shows "N \<le> 2 * d * (ceil_div N d div 2) + d" and "2 * d * (ceil_div N d div 2) < N + d"
proof -
  let ?c = "ceil_div N d"
  have a: "?c \<le> 2 * (?c div 2) + 1" and b: "2 * (?c div 2) \<le> ?c" by presburger+
  have "N \<le> ?c * d" using ceil_div_bounds(1) [OF assms] .
  also have "\<dots> \<le> (2 * (?c div 2) + 1) * d" using a by (rule mult_le_mono1)
  finally show "N \<le> 2 * d * (ceil_div N d div 2) + d" by (simp add: algebra_simps)
  have "2 * (?c div 2) * d \<le> ?c * d" using b by (rule mult_le_mono1)
  also have "\<dots> < N + d" using ceil_div_bounds(2) [OF assms] .
  finally show "2 * d * (ceil_div N d div 2) < N + d" by (simp add: algebra_simps)
qed


lemma num_subsets_ge2: "2 \<le> num_subsets N"
  by (simp add: num_subsets_def)

lemma num_subsets_log: "num_subsets N = nat (max 2 (\<lfloor>log 2 (real N)\<rfloor> - 9))"
  by (simp add: num_subsets_def log_def max.commute)

lemma constructed_fields:
  assumes "Shape_detection_3 pts rng = Some e"
  shows "pts \<noteq> []" and "m_num_subsets e = num_subsets (length pts)"
    and "m_shapeIndex e = []" and "m_extractedShapes e = []"
    and "m_numAvailablePoints e = length pts" and "m_shapeFactories e = []"
  using assms by (auto simp: Shape_detection_3_def Let_def split: if_splits)

lemma constructed_octrees:
  assumes "Shape_detection_3 pts rng = Some e"
  shows "length (m_direct_octrees e) = m_num_subsets e"
    and "\<forall>s<m_num_subsets e.
           m_direct_octrees e ! s = Some (ladder_tree (length pts) (m_num_subsets e) s)"
proof -
  let ?N = "length pts" and ?K = "num_subsets (length pts)"
  let ?st = "\<lparr>ls_points = pts, ls_rng = rng, ls_last = ?N - 1, ls_remainingPoints = ?N,
               ls_direct_octrees = replicate ?K None,
               ls_availableOctreeSizes = replicate ?K 0\<rparr>"
  have ne: "pts \<noteq> []" using assms by (rule constructed_fields)
  have e: "m_direct_octrees e = ls_direct_octrees (subset_loop ?K ?st)"
    and k: "m_num_subsets e = ?K"
    using assms by (auto simp: Shape_detection_3_def Let_def split: if_splits)
  have "length (ls_direct_octrees (subset_loop ?K ?st)) = length (ls_direct_octrees ?st)
       \<and> (\<forall>s<?K. ls_direct_octrees (subset_loop ?K ?st) ! s = Some (ladder_tree ?N ?K s))
       \<and> (\<forall>s\<ge>?K. ls_direct_octrees (subset_loop ?K ?st) ! s = ls_direct_octrees ?st ! s)"
    using ne by (intro subset_loop_trees) simp_all
  then show "length (m_direct_octrees e) = m_num_subsets e"
    and "\<forall>s<m_num_subsets e.
           m_direct_octrees e ! s = Some (ladder_tree (length pts) (m_num_subsets e) s)"
    unfolding e k by simp_all
qed

lemma constructed_sizes:
  assumes "Shape_detection_3 pts rng = Some e"
  shows "length (m_availableOctreeSizes e) = m_num_subsets e"
    and "\<forall>s<m_num_subsets e.
           m_availableOctreeSizes e ! s
             = int (octree_size (ladder_tree (length pts) (m_num_subsets e) s))"
proof -
  let ?N = "length pts" and ?K = "num_subsets (length pts)"
  let ?st = "\<lparr>ls_points = pts, ls_rng = rng, ls_last = ?N - 1, ls_remainingPoints = ?N,
               ls_direct_octrees = replicate ?K None,
               ls_availableOctreeSizes = replicate ?K 0\<rparr>"
  have ne: "pts \<noteq> []" using assms by (rule constructed_fields)
  have e: "m_availableOctreeSizes e = ls_availableOctreeSizes (subset_loop ?K ?st)"
    and k: "m_num_subsets e = ?K"
    using assms by (auto simp: Shape_detection_3_def Let_def split: if_splits)
  have "length (ls_availableOctreeSizes (subset_loop ?K ?st)) = length (ls_availableOctreeSizes ?st)
       \<and> (\<forall>s<?K. ls_availableOctreeSizes (subset_loop ?K ?st) ! s
                  = int (octree_size (ladder_tree ?N ?K s)))
       \<and> (\<forall>s\<ge>?K. ls_availableOctreeSizes (subset_loop ?K ?st) ! s
                  = ls_availableOctreeSizes ?st ! s)"
    using ne by (intro subset_loop_sizes) simp_all
  then show "length (m_availableOctreeSizes e) = m_num_subsets e"
    and "\<forall>s<m_num_subsets e.
           m_availableOctreeSizes e ! s
             = int (octree_size (ladder_tree (length pts) (m_num_subsets e) s))"
    unfolding e k by simp_all
qed

lemma constructed_points:
  assumes "Shape_detection_3 pts rng = Some e"
  shows "mset (m_points e) = mset pts"
proof -
  let ?N = "length pts" and ?K = "num_subsets (length pts)"
  let ?st = "\<lparr>ls_points = pts, ls_rng = rng, ls_last = ?N - 1, ls_remainingPoints = ?N,
               ls_direct_octrees = replicate ?K None,
               ls_availableOctreeSizes = replicate ?K 0\<rparr>"
  have ne: "pts \<noteq> []" using assms by (rule constructed_fields)
  have e: "m_points e = ls_points (subset_loop ?K ?st)"
    using assms by (auto simp: Shape_detection_3_def Let_def split: if_splits)
  have "mset (ls_points (subset_loop ?K ?st)) = mset (ls_points ?st)"
    using ne by (intro subset_loop_mset) simp_all
  then show ?thesis unfolding e by simp
qed

lemma constructed_subset_indices:
  assumes "Shape_detection_3 pts rng = Some e" and "s < m_num_subsets e"
  shows "subset_indices e s
     = {ladder_start (length pts) (m_num_subsets e) s ..< ladder_beyond (length pts) (m_num_subsets e) s}"
  using constructed_octrees(2) [OF assms(1)] assms(2)
  by (simp add: subset_indices_def ladder_indices)

lemma card_ladder:
  "s < K \<Longrightarrow> card {ladder_start N K s ..< ladder_beyond N K s} = octree_size (ladder_tree N K s)"
  by (simp add: octree_size_def ladder_tree_def)

subsection \<open>Evaluation on the small point cloud\<close>

lemma move_points_unfold:
  "0 < n \<Longrightarrow> move_points n indices pts lastp
     = move_points (n - 1) indices (swap_points pts lastp (indices ! (n - 1))) (lastp - 1)"
  by (cases n) simp_all

lemma subset_loop_unfold:
  "0 < k \<Longrightarrow> subset_loop k st = subset_loop (k - 1) (subset_body (k - 1) st)"
  by (cases k) simp_all

lemma num_subsets_4: "num_subsets 4 = 2"
  by (simp add: num_subsets_floorlog compute_floorlog)

lemma length_line_points: "length line_points = 4" "line_points \<noteq> []"
  by (simp_all add: line_points_def)

lemma line_engine_constructed: "Shape_detection_3 line_points (sconst 1) = Some line_engine"
proof -
  let ?st = "\<lparr>ls_points = line_points, ls_rng = sconst 1, ls_last = 3, ls_remainingPoints = 4,
               ls_direct_octrees = replicate 2 None,
               ls_availableOctreeSizes = replicate 2 0\<rparr>"
  have "Shape_detection_3 line_points (sconst 1)
      = Some \<lparr>m_points = ls_points (subset_loop 2 ?st),
               m_options = \<lparr>probability = 0, min_points = 0, epsilon = 0,
                            normal_threshold = 0, cluster_epsilon = 0\<rparr>,
               m_rng = ls_rng (subset_loop 2 ?st),
               m_direct_octrees = ls_direct_octrees (subset_loop 2 ?st),
               m_availableOctreeSizes = ls_availableOctreeSizes (subset_loop 2 ?st),
               m_num_subsets = 2,
               m_shapeIndex = [],
               m_numAvailablePoints = 4,
               m_extractedShapes = [],
               m_shapeFactories = []\<rparr>"
    by (simp add: Shape_detection_3_def length_line_points num_subsets_4 Let_def)
  also have "subset_loop 2 ?st
     = \<lparr>ls_points = [0, 0, 0, 10], ls_rng = sconst 1, ls_last = 1, ls_remainingPoints = 0,
        ls_direct_octrees = [Some \<lparr>oct_first = 0, oct_beyond = 2, oct_offset = 0\<rparr>,
                             Some \<lparr>oct_first = 2, oct_beyond = 4, oct_offset = 2\<rparr>],
        ls_availableOctreeSizes = [2, 2]\<rparr>"
    by (simp add: Let_def line_points_def subset_loop_unfold subset_body_def pick_indices.simps
          move_points_unfold swap_points_def)
      (simp add: eval_nat_numeral)
  finally show ?thesis
    by (simp only: line_engine_def ladder_state.select_convs)
qed

lemma cloud_4097_constructed:
  "Shape_detection_3 (replicate 4097 0) (sconst 0) = Some cloud_4097"
  by (simp add: cloud_4097_def Shape_detection_3_def Let_def)

lemma cloud_4097_subsets: "m_num_subsets cloud_4097 = 3"
  using constructed_fields(2) [OF cloud_4097_constructed]
  by (simp add: num_subsets_floorlog compute_floorlog)

lemma cloud_4097_indices:
  "subset_indices cloud_4097 0 = {0 ..< 1025}"
  "subset_indices cloud_4097 (Suc 0) = {1025 ..< 2049}"
  "subset_indices cloud_4097 2 = {2049 ..< 4097}"
  using constructed_subset_indices [OF cloud_4097_constructed, of 0]
    constructed_subset_indices [OF cloud_4097_constructed, of 1]
    constructed_subset_indices [OF cloud_4097_constructed, of 2]
  by (simp_all add: cloud_4097_subsets ladder_start_def ladder_beyond_def ceil_div_def)

subsection \<open>The commit step\<close>

lemma length_mark_assigned [simp]: "length (mark_assigned si v xs) = length si"
  unfolding mark_assigned_def by (induction xs arbitrary: si) simp_all

lemma mark_assigned_in:
  "i \<in> set xs \<Longrightarrow> i < length si \<Longrightarrow> mark_assigned si v xs ! i = v"
  unfolding mark_assigned_def
proof (induction xs arbitrary: si rule: rev_induct)
  case Nil
  then show ?case by simp
next
  case (snoc x xs)
  have len: "length (foldl (\<lambda>s i. s[i := v]) si xs) = length si"
    using length_mark_assigned [of si v xs] by (simp add: mark_assigned_def)
  show ?case
  proof (cases "i = x")
    case True
    then show ?thesis using snoc.prems len by simp
  next
    case False
    then have "i \<in> set xs" using snoc.prems by simp
    then show ?thesis using snoc.IH snoc.prems False by simp
  qed
qed

lemma mark_assigned_out:
  "i \<notin> set xs \<Longrightarrow> mark_assigned si v xs ! i = si ! i"
  unfolding mark_assigned_def
  by (induction xs arbitrary: si rule: rev_induct) simp_all

lemma fst_foldl_assign_point:
  "fst (foldl (assign_point e v) s xs) = mark_assigned (fst s) v xs"
  unfolding mark_assigned_def
  by (induction xs arbitrary: s) (simp_all add: assign_point_def split_beta)

lemma num_foldl_assign_point:
  "fst (snd (foldl (assign_point e v) s xs)) = fst (snd s) + int (length xs)"
  by (induction xs arbitrary: s) (simp_all add: assign_point_def split_beta)

lemma commit_fields:
  "m_extractedShapes (eng (commit st)) = m_extractedShapes (eng st) @ [last (candidates st)]"
  "m_shapeIndex (eng (commit st))
     = mark_assigned (m_shapeIndex (eng st)) (int (length (m_extractedShapes (eng st))))
         (assigned_points (last (candidates st)))"
  "numInvalid (commit st) = numInvalid st + int (length (assigned_points (last (candidates st))))"
  "m_points (eng (commit st)) = m_points (eng st)"
  "m_options (eng (commit st)) = m_options (eng st)"
  "m_numAvailablePoints (eng (commit st)) = m_numAvailablePoints (eng st)"
  "m_num_subsets (eng (commit st)) = m_num_subsets (eng st)"
  "m_direct_octrees (eng (commit st)) = m_direct_octrees (eng st)"
  "m_shapeFactories (eng (commit st)) = m_shapeFactories (eng st)"
  "m_rng (eng (commit st)) = m_rng (eng st)"
  "candidates (commit st) = candidates st"
  "forceExit (commit st) = forceExit st"
  "nbNewCandidates (commit st) = nbNewCandidates st - 1"
  "nbFailedCandidates (commit st) = 0"
  by (simp_all add: commit_def Let_def split_beta fst_foldl_assign_point num_foldl_assign_point)

lemma skip_present_step:
  "cs ! start \<noteq> None \<and> start < endp \<Longrightarrow>
   skip_present cs start endp = skip_present cs (start + 1) endp"
  by (subst skip_present.simps) (rule if_P)

lemma skip_present_stop:
  "\<not> (cs ! start \<noteq> None \<and> start < endp) \<Longrightarrow> skip_present cs start endp = start"
  by (subst skip_present.simps) (rule if_not_P)

lemma compact_stop: "\<not> start < endp \<Longrightarrow> compact cs start endp = (cs, endp)"
  by (subst compact.simps) (rule if_not_P)

lemma compact_swap:
  assumes "start < endp"
    and "cs ! skip_present cs start endp = None
         \<and> cs ! skip_absent cs (skip_present cs start endp) endp \<noteq> None
         \<and> skip_present cs start endp < skip_absent cs (skip_present cs start endp) endp"
  shows "compact cs start endp
     = compact (cs[skip_present cs start endp := cs ! skip_absent cs (skip_present cs start endp) endp,
                   skip_absent cs (skip_present cs start endp) endp := None])
         (skip_present cs start endp + 1) (skip_absent cs (skip_present cs start endp) endp - 1)"
  by (subst compact.simps) (simp only: if_P [OF assms(1)] Let_def if_P [OF assms(2)])

lemma compact_noswap:
  assumes "start < endp"
    and "\<not> (cs ! skip_present cs start endp = None
         \<and> cs ! skip_absent cs (skip_present cs start endp) endp \<noteq> None
         \<and> skip_present cs start endp < skip_absent cs (skip_present cs start endp) endp)"
  shows "compact cs start endp
     = compact cs (skip_present cs start endp) (skip_absent cs (skip_present cs start endp) endp)"
  by (subst compact.simps) (simp only: if_P [OF assms(1)] Let_def if_not_P [OF assms(2)])

lemma skip_present_ge: "start \<le> skip_present cs start endp"
  by (induction cs start endp rule: skip_present.induct)
    (subst skip_present.simps, auto)

lemma skip_present_nonnull:
  "start \<le> i \<Longrightarrow> i < skip_present cs start endp \<Longrightarrow> cs ! i \<noteq> None"
proof (induction cs start endp rule: skip_present.induct)
  case (1 cs start endp)
  show ?case
  proof (cases "cs ! start \<noteq> None \<and> start < endp")
    case True
    then have eq: "skip_present cs start endp = skip_present cs (start + 1) endp"
      by (rule skip_present_step)
    show ?thesis
    proof (cases "i = start")
      case True
      then show ?thesis using \<open>cs ! start \<noteq> None \<and> start < endp\<close> by simp
    next
      case False
      then show ?thesis using "1.IH" [OF True] "1.prems" eq by simp
    qed
  next
    case False
    then have "skip_present cs start endp = start"
      by (rule skip_present_stop)
    then show ?thesis using "1.prems" by simp
  qed
qed

lemma skip_absent_le: "skip_absent cs start endp \<le> endp"
  by (induction cs start endp rule: skip_absent.induct)
    (subst skip_absent.simps, auto)

lemma compact_props:
  assumes "endp < length cs" and "\<forall>i<start. cs ! i \<noteq> None"
  shows "length (fst (compact cs start endp)) = length cs
       \<and> (\<forall>i<snd (compact cs start endp). fst (compact cs start endp) ! i \<noteq> None)
       \<and> (\<forall>x. Some x \<in> set (fst (compact cs start endp)) \<longrightarrow> Some x \<in> set cs)"
  using assms
proof (induction cs start endp rule: compact.induct)
  case (1 cs start endp)
  show ?case
  proof (cases "start < endp")
    case False
    then have "compact cs start endp = (cs, endp)"
      by (rule compact_stop)
    then show ?thesis using False "1.prems" by simp
  next
    case True
    define s1 where "s1 = skip_present cs start endp"
    define e1 where "e1 = skip_absent cs s1 endp"
    have s1_ge: "start \<le> s1" unfolding s1_def by (rule skip_present_ge)
    have e1_le: "e1 \<le> endp" unfolding e1_def by (rule skip_absent_le)
    have nn: "\<forall>i<s1. cs ! i \<noteq> None"
    proof (intro allI impI)
      fix i assume "i < s1"
      show "cs ! i \<noteq> None"
      proof (cases "i < start")
        case True
        then show ?thesis using "1.prems"(2) by simp
      next
        case False
        then show ?thesis
          using skip_present_nonnull [of start i cs endp] \<open>i < s1\<close> by (simp add: s1_def)
      qed
    qed
    show ?thesis
    proof (cases "cs ! s1 = None \<and> cs ! e1 \<noteq> None \<and> s1 < e1")
      case sw: True
      let ?cs1 = "cs[s1 := cs ! e1, e1 := None]"
      have eq: "compact cs start endp = compact ?cs1 (s1 + 1) (e1 - 1)"
        using compact_swap [OF True] sw unfolding s1_def e1_def by simp
      have p1: "e1 - 1 < length ?cs1" using e1_le "1.prems"(1) by simp
      have p2: "\<forall>i<s1 + 1. ?cs1 ! i \<noteq> None"
      proof (intro allI impI)
        fix i assume "i < s1 + 1"
        show "?cs1 ! i \<noteq> None"
        proof (cases "i = s1")
          case True
          then show ?thesis using sw e1_le "1.prems"(1) by simp
        next
          case False
          then have "i < s1" using \<open>i < s1 + 1\<close> by simp
          then show ?thesis using nn sw by simp
        qed
      qed
      have sub: "Some x \<in> set ?cs1 \<Longrightarrow> Some x \<in> set cs" for x
      proof -
        assume "Some x \<in> set ?cs1"
        then have "Some x \<in> insert None (set (cs[s1 := cs ! e1]))"
          using set_update_subset_insert by fastforce
        then have "Some x \<in> insert (cs ! e1) (set cs)"
          using set_update_subset_insert by fastforce
        moreover have "cs ! e1 \<in> set cs" using e1_le "1.prems"(1) by simp
        ultimately show "Some x \<in> set cs" by auto
      qed
      note IH = "1.IH"(1) [OF True s1_def e1_def sw p1 p2]
      show ?thesis unfolding eq using IH sub by simp
    next
      case nsw: False
      have eq: "compact cs start endp = compact cs s1 e1"
        using compact_noswap [OF True] nsw unfolding s1_def e1_def by simp
      have p1: "e1 < length cs" using e1_le "1.prems"(1) by simp
      note IH = "1.IH"(2) [OF True s1_def e1_def nsw p1 nn]
      show ?thesis unfolding eq using IH by simp
    qed
  qed
qed

lemma compact_after_swap:
  "compact [None, Some c, None] 0 2 = ([Some c, None, None], 0)"
proof -
  have p: "skip_present [None, Some c, None] 0 2 = 0"
    by (subst skip_present.simps) simp
  have a: "skip_absent [None, Some c, None] 0 2 = 1"
    by (subst skip_absent.simps, simp, subst skip_absent.simps, simp)
  have "compact [None, Some c, None] 0 2 = compact [Some c, None, None] 1 0"
    by (subst compact.simps) (simp add: p a)
  then show ?thesis by (simp add: compact_stop)
qed

lemma pool_after_compact:
  assumes "pool \<noteq> []"
    and "c' \<in> set (map the (take (snd (compact pool 0 (length pool - 1)))
                               (fst (compact pool 0 (length pool - 1)))))"
  shows "Some c' \<in> set pool"
proof -
  let ?r = "compact pool 0 (length pool - 1)"
  have pr: "length (fst ?r) = length pool
       \<and> (\<forall>i<snd ?r. fst ?r ! i \<noteq> None)
       \<and> (\<forall>x. Some x \<in> set (fst ?r) \<longrightarrow> Some x \<in> set pool)"
    using assms(1) by (intro compact_props) simp_all
  from assms(2) obtain x where x: "x \<in> set (take (snd ?r) (fst ?r))" and c: "c' = the x"
    by auto
  from x obtain i where i: "i < length (take (snd ?r) (fst ?r))" "x = take (snd ?r) (fst ?r) ! i"
    by (auto simp: in_set_conv_nth)
  then have "i < snd ?r" and xi: "x = fst ?r ! i" and il: "i < length (fst ?r)" by simp_all
  then have "x \<noteq> None" using pr by simp
  then have "x = Some c'" using c by auto
  moreover have "x \<in> set (fst ?r)" using xi il by simp
  ultimately show ?thesis using pr by simp
qed

lemma refresh_candidate_Some:
  assumes "refresh_candidate X st (Some c) = Some c'"
  shows "min_points (m_options (eng st)) \<le> m_score (update_points (m_shapeIndex (eng st)) c)
       \<and> c' = compute_bound X (update_points (m_shapeIndex (eng st)) c)
                (subsetSizes (m_availableOctreeSizes (eng st))
                   (m_nb_subset_used (update_points (m_shapeIndex (eng st)) c) - 1))
                (available st)"
  using assms by (auto simp: refresh_candidate_def Let_def split: if_splits)

lemma commit_decision_keep:
  assumes "overlook_probability X st (expected_value (last (candidates st)))
             \<le> probability (m_options (eng st))"
    and "min_points (m_options (eng st)) \<le> length (assigned_points (last (candidates st)))"
  shows "commit_decision X st =
     (let pool = map (refresh_candidate X (commit st)) (map Some (butlast (candidates st))) @ [None]
      in (commit st)\<lparr>candidates :=
            map the (take (snd (compact pool 0 (length pool - 1)))
                       (fst (compact pool 0 (length pool - 1))))\<rparr>)"
  using assms by (simp add: commit_decision_def Let_def split_beta butlast_append)

lemma commit_decision_drop:
  assumes "overlook_probability X st (expected_value (last (candidates st)))
             \<le> probability (m_options (eng st))"
    and "\<not> min_points (m_options (eng st)) \<le> length (assigned_points (last (candidates st)))"
  shows "eng (commit_decision X st) = eng st \<and> numInvalid (commit_decision X st) = numInvalid st
       \<and> forceExit (commit_decision X st) = forceExit st
       \<and> nbNewCandidates (commit_decision X st) = nbNewCandidates st
       \<and> nbFailedCandidates (commit_decision X st) = nbFailedCandidates st"
  using assms by (simp add: commit_decision_def Let_def split_beta)

lemma commit_decision_reject:
  assumes "\<not> overlook_probability X st (expected_value (last (candidates st)))
             \<le> probability (m_options (eng st))"
  shows "commit_decision X st = st"
  using assms by (simp add: commit_decision_def Let_def)

lemma add_candidate_frame:
  "eng (add_candidate X indices st factory) = eng st"
  "numInvalid (add_candidate X indices st factory) = numInvalid st"
  "forceExit (add_candidate X indices st factory) = forceExit st"
  by (simp_all add: add_candidate_def Let_def split: option.splits)

lemma foldl_add_candidate_frame:
  "eng (foldl (add_candidate X indices) st fs) = eng st
   \<and> numInvalid (foldl (add_candidate X indices) st fs) = numInvalid st
   \<and> forceExit (foldl (add_candidate X indices) st fs) = forceExit st"
  by (induction fs arbitrary: st) (simp_all add: add_candidate_frame)

lemma generate_candidate_frame:
  assumes "generate_candidate fuel X st = Some st'"
  shows "(\<exists>r. eng st' = (eng st)\<lparr>m_rng := r\<rparr>) \<and> numInvalid st' = numInvalid st
       \<and> forceExit st' = (forceExit st \<or> 10000 \<le> nbFailedCandidates st')"
  using assms
  by (auto simp: generate_candidate_def Let_def foldl_add_candidate_frame
      split: option.splits if_splits)

lemma generate_candidates_frame:
  assumes "generate_candidates fuel X st = Some st'"
  shows "(\<exists>r. eng st' = (eng st)\<lparr>m_rng := r\<rparr>) \<and> numInvalid st' = numInvalid st
       \<and> forceExit st' = (forceExit st \<or> 10000 \<le> nbFailedCandidates st')"
  using assms
proof (induction fuel arbitrary: st)
  case 0
  then show ?case by simp
next
  case (Suc fuel)
  from Suc.prems obtain st1 where g: "generate_candidate (Suc fuel) X st = Some st1"
    by (auto split: option.splits)
  note f1 = generate_candidate_frame [OF g]
  show ?case
  proof (cases "continue_generation X st1")
    case True
    then have "generate_candidates fuel X st1 = Some st'"
      using Suc.prems g by simp
    from Suc.IH [OF this] f1 True show ?thesis
      by (auto simp: continue_generation_def)
  next
    case False
    then have "st' = st1" using Suc.prems g by simp
    then show ?thesis using f1 by simp
  qed
qed

lemma rescore_best_fields:
  "m_fit (rescore_best X e c) = m_fit c"
  "expected_value (rescore_best X e c) = expected_value c"
  "assigned_points (rescore_best X e c)
     = connected_component X (m_fit c) (m_points e) (cluster_epsilon (m_options e))
         (filter (point_matches X (m_points e) (m_shapeIndex e) (m_fit c)
                    (3 * epsilon (m_options e)) (normal_threshold (m_options e)))
            [0 ..< length (m_points e)])"
  by (simp_all add: rescore_best_def octree_score_def assigned_points_def Let_def)

lemma rescore_best_claim:
  assumes "\<forall>f pts k idxs. set (connected_component X f pts k idxs) \<subseteq> set idxs"
    and "i \<in> set (assigned_points (rescore_best X e c))"
  shows "i < length (m_points e) \<and> m_shapeIndex e ! i = -1
       \<and> \<bar>signed_distance X (m_fit c) (m_points e ! i)\<bar> \<le> 3 * epsilon (m_options e)
       \<and> normal_deviation X (m_fit c) (m_points e ! i) \<le> normal_threshold (m_options e)"
proof -
  have "i \<in> set (filter (point_matches X (m_points e) (m_shapeIndex e) (m_fit c)
                    (3 * epsilon (m_options e)) (normal_threshold (m_options e)))
            [0 ..< length (m_points e)])"
    using assms unfolding rescore_best_fields by blast
  then show ?thesis by (simp add: point_matches_def)
qed

lemma main_body_cases:
  assumes "main_body fuel X st = Some st'"
  obtains (stop) st1 where "generate_candidates fuel X (st\<lparr>bestExp := 0\<rparr>) = Some st1"
      and "forceExit st1 \<or> candidates st1 = []" and "st' = st1"
  | (decide) st1 cands where "generate_candidates fuel X (st\<lparr>bestExp := 0\<rparr>) = Some st1"
      and "\<not> forceExit st1" and "candidates st1 \<noteq> []"
      and "getBestCandidate fuel X (eng st1) (candidates st1) (available st1) = Some cands"
      and "st' = commit_decision X
                  (st1\<lparr>candidates := butlast cands @ [rescore_best X (eng st1) (last cands)]\<rparr>)"
  using assms unfolding main_body_def
  by (auto split: option.splits if_splits)

lemma commit_decision_forceExit: "forceExit (commit_decision X st) = forceExit st"
  by (simp add: commit_decision_def Let_def split_beta commit_fields)

lemma main_body_step:
  assumes mb: "main_body fuel X st = Some st'"
  shows "m_points (eng st') = m_points (eng st) \<and> m_options (eng st') = m_options (eng st)
       \<and> m_numAvailablePoints (eng st') = m_numAvailablePoints (eng st)
       \<and> ((m_extractedShapes (eng st') = m_extractedShapes (eng st)
            \<and> m_shapeIndex (eng st') = m_shapeIndex (eng st)
            \<and> numInvalid st' = numInvalid st)
          \<or> (\<exists>r c. m_extractedShapes (eng st')
                     = m_extractedShapes (eng st) @ [rescore_best X ((eng st)\<lparr>m_rng := r\<rparr>) c]
                \<and> m_shapeIndex (eng st')
                    = mark_assigned (m_shapeIndex (eng st))
                        (int (length (m_extractedShapes (eng st))))
                        (assigned_points (rescore_best X ((eng st)\<lparr>m_rng := r\<rparr>) c))
                \<and> numInvalid st' = numInvalid st
                     + int (length (assigned_points (rescore_best X ((eng st)\<lparr>m_rng := r\<rparr>) c)))
                \<and> \<not> forceExit st'))
       \<and> forceExit st' = (forceExit st \<or> 10000 \<le> nbFailedCandidates st')"
  using mb
proof (cases rule: main_body_cases)
  case (stop st1)
  from generate_candidates_frame [OF stop(1)] stop(3) show ?thesis
    by auto
next
  case (decide st1 cands)
  from generate_candidates_frame [OF decide(1)] obtain r
    where e1: "eng st1 = (eng st)\<lparr>m_rng := r\<rparr>" and n1: "numInvalid st1 = numInvalid st"
    by auto
  let ?best = "rescore_best X (eng st1) (last cands)"
  let ?st2 = "st1\<lparr>candidates := butlast cands @ [?best]\<rparr>"
  have fe: "\<not> forceExit st'"
    using decide(2,5) by (simp add: commit_decision_forceExit)
  have f0: "\<not> forceExit st" and nb1: "\<not> 10000 \<le> nbFailedCandidates st1"
    using generate_candidates_frame [OF decide(1)] decide(2) by simp_all
  let ?ok = "overlook_probability X ?st2 (expected_value ?best) \<le> probability (m_options (eng ?st2))"
  let ?big = "min_points (m_options (eng ?st2)) \<le> length (assigned_points ?best)"
  show ?thesis
  proof (cases "?ok \<and> ?big")
    case True
    have st': "eng st' = eng (commit ?st2)" "numInvalid st' = numInvalid (commit ?st2)"
      "nbFailedCandidates st' = nbFailedCandidates (commit ?st2)"
      using commit_decision_keep [of X ?st2] True decide(5) by (simp_all add: Let_def)
    have f1: "m_points (eng st1) = m_points (eng st)" "m_options (eng st1) = m_options (eng st)"
      "m_numAvailablePoints (eng st1) = m_numAvailablePoints (eng st)"
      "m_extractedShapes (eng st1) = m_extractedShapes (eng st)"
      "m_shapeIndex (eng st1) = m_shapeIndex (eng st)"
      by (simp_all add: e1)
    show ?thesis
      using fe f0
      by (intro conjI disjI2 exI [of _ r] exI [of _ "last cands"])
        (simp_all add: st' commit_fields e1 [symmetric] n1 f1)
  next
    case False
    have "eng st' = eng ?st2 \<and> numInvalid st' = numInvalid ?st2
        \<and> nbFailedCandidates st' = nbFailedCandidates ?st2"
    proof (cases ?ok)
      case True
      then have "\<not> ?big" using False by simp
      then show ?thesis
        using commit_decision_drop [of X ?st2] True decide(5) by simp
    next
      case nok: False
      then show ?thesis
        using commit_decision_reject [of X ?st2] decide(5) by simp
    qed
    then show ?thesis using fe f0 nb1 by (simp add: e1 n1)
  qed
qed

lemma consistent_extend:
  assumes "assignment_consistent e"
    and ex: "m_extractedShapes e' = m_extractedShapes e @ [best]"
    and si: "m_shapeIndex e'
           = mark_assigned (m_shapeIndex e) (int (length (m_extractedShapes e))) (assigned_points best)"
    and un: "\<forall>i\<in>set (assigned_points best). i < length (m_shapeIndex e) \<and> m_shapeIndex e ! i = -1"
  shows "assignment_consistent e'"
  unfolding assignment_consistent_def
proof (intro allI impI ballI)
  fix k i
  assume k: "k < length (m_extractedShapes e')"
    and i: "i \<in> set (assigned_points (m_extractedShapes e' ! k))"
  show "i < length (m_shapeIndex e') \<and> m_shapeIndex e' ! i = int k"
  proof (cases "k < length (m_extractedShapes e)")
    case True
    then have "i \<in> set (assigned_points (m_extractedShapes e ! k))"
      using i ex by (simp add: nth_append)
    then have old: "i < length (m_shapeIndex e) \<and> m_shapeIndex e ! i = int k"
      using assms(1) True unfolding assignment_consistent_def by blast
    then have "i \<notin> set (assigned_points best)" using un by auto
    then show ?thesis using old by (simp add: si mark_assigned_out)
  next
    case False
    then have kk: "k = length (m_extractedShapes e)" using k ex by simp
    then have "i \<in> set (assigned_points best)" using i ex by simp
    then show ?thesis using un kk by (simp add: si mark_assigned_in)
  qed
qed

lemma mark_assigned_keeps:
  assumes "\<forall>i\<in>set xs. si ! i = -1" and "si ! j \<noteq> -1"
  shows "mark_assigned si v xs ! j = si ! j"
proof -
  have "j \<notin> set xs" using assms by auto
  then show ?thesis by (rule mark_assigned_out)
qed

lemma main_body_consistent:
  assumes cc: "\<forall>f pts k idxs. set (connected_component X f pts k idxs) \<subseteq> set idxs"
    and mb: "main_body fuel X st = Some st'"
    and len: "length (m_shapeIndex (eng st)) = length (m_points (eng st))"
    and ac: "assignment_consistent (eng st)"
  shows "length (m_shapeIndex (eng st')) = length (m_points (eng st'))
       \<and> assignment_consistent (eng st')
       \<and> (\<forall>i. m_shapeIndex (eng st) ! i \<noteq> -1
              \<longrightarrow> m_shapeIndex (eng st') ! i = m_shapeIndex (eng st) ! i)"
proof -
  note step = main_body_step [OF mb]
  then have pts: "m_points (eng st') = m_points (eng st)" by simp
  from step consider
    (same) "m_extractedShapes (eng st') = m_extractedShapes (eng st)"
        "m_shapeIndex (eng st') = m_shapeIndex (eng st)"
    | (more) r c where
        "m_extractedShapes (eng st')
           = m_extractedShapes (eng st) @ [rescore_best X ((eng st)\<lparr>m_rng := r\<rparr>) c]"
        "m_shapeIndex (eng st')
           = mark_assigned (m_shapeIndex (eng st)) (int (length (m_extractedShapes (eng st))))
               (assigned_points (rescore_best X ((eng st)\<lparr>m_rng := r\<rparr>) c))"
    by blast
  then show ?thesis
  proof cases
    case same
    then show ?thesis
      using len ac pts by (simp add: assignment_consistent_def)
  next
    case (more r c)
    let ?best = "rescore_best X ((eng st)\<lparr>m_rng := r\<rparr>) c"
    have un: "\<forall>i\<in>set (assigned_points ?best).
               i < length (m_shapeIndex (eng st)) \<and> m_shapeIndex (eng st) ! i = -1"
      using rescore_best_claim [OF cc, of _ "(eng st)\<lparr>m_rng := r\<rparr>" c] len by simp
    have "assignment_consistent (eng st')"
      using ac more(1) more(2) un by (rule consistent_extend)
    moreover have "\<forall>i. m_shapeIndex (eng st) ! i \<noteq> -1
              \<longrightarrow> m_shapeIndex (eng st') ! i = m_shapeIndex (eng st) ! i"
      using un by (simp add: more(2) mark_assigned_keeps)
    ultimately show ?thesis using len pts by (simp add: more(2))
  qed
qed

lemma main_body_tolerance:
  assumes cc: "\<forall>f pts k idxs. set (connected_component X f pts k idxs) \<subseteq> set idxs"
    and mb: "main_body fuel X st = Some st'"
    and ct: "claims_within_tolerance X (eng st)"
  shows "claims_within_tolerance X (eng st')"
proof -
  note step = main_body_step [OF mb]
  then have pts: "m_points (eng st') = m_points (eng st)"
    and opt: "m_options (eng st') = m_options (eng st)" by simp_all
  from step consider
    (same) "m_extractedShapes (eng st') = m_extractedShapes (eng st)"
    | (more) r c where
        "m_extractedShapes (eng st')
           = m_extractedShapes (eng st) @ [rescore_best X ((eng st)\<lparr>m_rng := r\<rparr>) c]"
    by blast
  then show ?thesis
  proof cases
    case same
    then show ?thesis
      using ct pts opt by (simp add: claims_within_tolerance_def)
  next
    case (more r c)
    let ?best = "rescore_best X ((eng st)\<lparr>m_rng := r\<rparr>) c"
    have "\<forall>i\<in>set (assigned_points ?best).
            \<bar>signed_distance X (m_fit ?best) (m_points (eng st) ! i)\<bar>
               \<le> 3 * epsilon (m_options (eng st))
            \<and> normal_deviation X (m_fit ?best) (m_points (eng st) ! i)
               \<le> normal_threshold (m_options (eng st))"
      using rescore_best_claim [OF cc, of _ "(eng st)\<lparr>m_rng := r\<rparr>" c]
      by (simp add: rescore_best_fields(1))
    then show ?thesis
      using ct unfolding claims_within_tolerance_def pts opt more by auto
  qed
qed


lemma main_loop_cases:
  assumes "main_loop fuel X st = Some st'"
  obtains (last) n where "fuel = Suc n" and "main_body fuel X st = Some st'"
      and "forceExit st' \<or> \<not> continue_detection X st'"
  | (more) n st1 where "fuel = Suc n" and "main_body fuel X st = Some st1"
      and "\<not> forceExit st1" and "continue_detection X st1"
      and "main_loop n X st1 = Some st'"
proof (cases fuel)
  case 0
  then show ?thesis using assms by simp
next
  case (Suc n)
  then obtain st1 where b: "main_body fuel X st = Some st1"
    using assms by (auto split: option.splits)
  show ?thesis
  proof (cases "forceExit st1 \<or> \<not> continue_detection X st1")
    case True
    then have "st' = st1" using assms Suc b by (auto split: if_splits)
    then show ?thesis using last Suc b True by simp
  next
    case False
    then have "main_loop n X st1 = Some st'" using assms Suc b by simp
    then show ?thesis using more Suc b False by simp
  qed
qed

lemma main_loop_consistent:
  assumes cc: "\<forall>f pts k idxs. set (connected_component X f pts k idxs) \<subseteq> set idxs"
    and "main_loop fuel X st = Some st'"
    and "length (m_shapeIndex (eng st)) = length (m_points (eng st))"
    and "assignment_consistent (eng st)"
  shows "length (m_shapeIndex (eng st')) = length (m_points (eng st'))
       \<and> assignment_consistent (eng st')"
  using assms(2-)
proof (induction fuel arbitrary: st)
  case 0
  then show ?case by simp
next
  case (Suc fuel)
  from Suc.prems(1) show ?case
  proof (cases rule: main_loop_cases)
    case (last n)
    then show ?thesis
      using main_body_consistent [OF cc last(2) Suc.prems(2,3)] by simp
  next
    case (more n st1)
    note s1 = main_body_consistent [OF cc more(2) Suc.prems(2,3)]
    from more(1,5) have "main_loop fuel X st1 = Some st'" by simp
    from Suc.IH [OF this] s1 show ?thesis by simp
  qed
qed

lemma main_loop_tolerance:
  assumes cc: "\<forall>f pts k idxs. set (connected_component X f pts k idxs) \<subseteq> set idxs"
    and "main_loop fuel X st = Some st'"
    and "claims_within_tolerance X (eng st)"
  shows "claims_within_tolerance X (eng st')"
  using assms(2-)
proof (induction fuel arbitrary: st)
  case 0
  then show ?case by simp
next
  case (Suc fuel)
  from Suc.prems(1) show ?case
  proof (cases rule: main_loop_cases)
    case (last n)
    then show ?thesis
      using main_body_tolerance [OF cc last(2) Suc.prems(2)] by simp
  next
    case (more n st1)
    note s1 = main_body_tolerance [OF cc more(2) Suc.prems(2)]
    from more(1,5) have "main_loop fuel X st1 = Some st'" by simp
    from Suc.IH [OF this s1] show ?thesis .
  qed
qed



lemma initial_state_fields:
  "m_points (eng (initial_state X e options)) = m_points e"
  "m_options (eng (initial_state X e options)) = options"
  "m_extractedShapes (eng (initial_state X e options)) = m_extractedShapes e"
  "m_shapeIndex (eng (initial_state X e options))
     = resize (m_shapeIndex e) (m_numAvailablePoints e) (-1)"
  "forceExit (initial_state X e options) = False"
  by (simp_all add: initial_state_def)

lemma detect_cases:
  assumes "detect fuel X e options = Some e'"
  obtains (none) "m_shapeFactories e = []" and "e' = e"
  | (run) st where "m_shapeFactories e \<noteq> []"
      and "main_loop fuel X (initial_state X e options) = Some st"
      and "e' = (eng st)\<lparr>m_numAvailablePoints :=
                     nat (int (m_numAvailablePoints (eng st)) - numInvalid st)\<rparr>"
  using assms unfolding detect_def detect_run_def
  by (auto split: if_splits option.splits)

lemma main_loop_options:
  assumes "main_loop fuel X st = Some st'"
  shows "m_options (eng st') = m_options (eng st) \<and> m_points (eng st') = m_points (eng st)"
  using assms
proof (induction fuel arbitrary: st)
  case 0
  then show ?case by simp
next
  case (Suc fuel)
  from Suc.prems show ?case
  proof (cases rule: main_loop_cases)
    case (last n)
    then show ?thesis using main_body_step [OF last(2)] by simp
  next
    case (more n st1)
    from more(1,5) have "main_loop fuel X st1 = Some st'" by simp
    from Suc.IH [OF this] main_body_step [OF more(2)] show ?thesis by simp
  qed
qed

subsection \<open>The detection run on the small point cloud\<close>

lemma line_initial:
  "initial_state line_collaborators line_ready line_options =
     \<lparr>eng = line_started, octree_draws = sconst 0, candidates = [], bestExp = 0,
      numInvalid = 0, nbNewCandidates = 0, nbFailedCandidates = 0, forceExit = False\<rparr>"
  by (simp add: initial_state_def line_started_def line_ready_def add_shape_factory_def
      line_engine_def line_collaborators_def resize_def eval_nat_numeral)

lemma line_started_fields:
  "m_points line_started = [0, 0, 0, 10]"
  "m_options line_started = line_options"
  "m_rng line_started = sconst 1"
  "m_direct_octrees line_started = [Some \<lparr>oct_first = 0, oct_beyond = 2, oct_offset = 0\<rparr>,
                          Some \<lparr>oct_first = 2, oct_beyond = 4, oct_offset = 2\<rparr>]"
  "m_availableOctreeSizes line_started = [2, 2]"
  "m_num_subsets line_started = 2"
  "m_shapeIndex line_started = [-1, -1, -1, -1]"
  "m_numAvailablePoints line_started = 4"
  "m_extractedShapes line_started = []"
  "m_shapeFactories line_started = [line_kind]"
  by (simp_all add: line_started_def line_ready_def add_shape_factory_def line_engine_def)

lemma line_draw:
  "draw_sample (Suc 0) line_collaborators line_started [] (sconst (Suc 0)) (sconst 0)
     = Some ([0, Suc 0, 2, 3], sconst (Suc 0), sconst 0)"
  by (simp add: line_started_fields line_collaborators_def requiredSamples_def
      selectRandomOctreeLevel_def
      upt_rec [of 0] upt_rec [of 1] upt_rec [of 2] upt_rec [of 3] upt_rec [of 4])

lemma line_score_0:
  "octree_score line_collaborators [0, 0, 0, 10]
     (direct_octree_indices (Some \<lparr>oct_first = 0, oct_beyond = 2, oct_offset = 0\<rparr>))
     (new_Shape 0) [-1, -1, -1, -1] 1 1
   = (2, (new_Shape 0)\<lparr>m_indices := [0, 1]\<rparr>)"
  by (simp add: octree_score_def direct_octree_indices_def octree_size_def point_matches_def
      line_collaborators_def new_Shape_def upt_rec [of 0] upt_rec [of 1] upt_rec [of 2])

lemma line_improve:
  "improveBound line_collaborators line_started (new_Shape 0) 4 (Suc 0) 500 = (True, line_shape)"
  by (simp add: improveBound_def line_started_fields sum_sizes_def improve_loop.simps
      improve_step_def line_options_def octree_score_def direct_octree_indices_def
      octree_size_def point_matches_def line_collaborators_def new_Shape_def compute_bound_def
      line_shape_def Let_def
      upt_rec [of 0] upt_rec [of 1] upt_rec [of 2] upt_rec [of 3] upt_rec [of 4])

lemma line_started_rng: "line_started\<lparr>m_rng := sconst (Suc 0)\<rparr> = line_started"
  by (simp add: line_started_def line_ready_def add_shape_factory_def line_engine_def)

lemma line_kind_fit: "line_kind [0, 0, 0, 10] [0, Suc 0, 2, 3] 1 1 = Some 0"
  by (simp add: line_kind_def)

lemma line_generate_candidate:
  "generate_candidate (Suc 0) line_collaborators line_state0 = Some line_state1"
  by (simp add: generate_candidate_def line_state0_def line_draw line_started_fields
      line_started_rng add_candidate_def line_options_def line_kind_fit available_def
      line_improve line_shape_def line_state1_def Let_def del: draw_sample.simps)

lemma line_overlook_1:
  "overlook_probability line_collaborators line_state1 3 = 3 / 4"
  by (simp add: overlook_probability_def StopProbability_def std_pow_def available_def
      line_state1_def line_started_fields line_collaborators_def)

lemma line_generate:
  "generate_candidates (Suc 0) line_collaborators (line_state0\<lparr>bestExp := 0\<rparr>) = Some line_state1"
proof -
  have b: "line_state0\<lparr>bestExp := 0\<rparr> = line_state0" by (simp add: line_state0_def)
  have c: "\<not> continue_generation line_collaborators line_state1"
    using line_overlook_1
    by (simp add: continue_generation_def line_state1_def line_started_fields line_options_def)
  show ?thesis
    unfolding b using c by (simp add: line_generate_candidate)
qed

lemma line_best:
  "getBestCandidate (Suc 0) line_collaborators line_started [line_shape] 4 = Some [line_shape]"
  by (simp add: getBestCandidate_def)

lemma line_rescore:
  "rescore_best line_collaborators line_started line_shape = line_shape"
  by (simp add: rescore_best_def octree_score_def point_matches_def line_started_fields
      line_options_def line_collaborators_def line_shape_def Let_def
      upt_rec [of 0] upt_rec [of 1] upt_rec [of 2] upt_rec [of 3] upt_rec [of 4])

lemma line_commit:
  "commit line_state1 = line_state2\<lparr>candidates := [line_shape]\<rparr>"
  by (simp add: commit_def line_state1_def line_state2_def line_committed_def
      line_started_fields assigned_points_def line_shape_def assign_point_def
      adjust_octree_size_def octree_size_def Let_def
      upt_rec [of 0] upt_rec [of "Suc 0"] upt_rec [of 2])

lemma compact_single: "compact [None] 0 0 = ([None], 0)"
  by (simp add: compact.simps)

lemma line_decision: "commit_decision line_collaborators line_state1 = line_state2"
proof -
  have ok: "overlook_probability line_collaborators line_state1
              (expected_value (last (candidates line_state1)))
            \<le> probability (m_options (eng line_state1))"
    using line_overlook_1
    by (simp add: line_state1_def line_shape_def line_started_fields line_options_def)
  have big: "min_points (m_options (eng line_state1))
             \<le> length (assigned_points (last (candidates line_state1)))"
    by (simp add: line_state1_def line_shape_def line_started_fields line_options_def
        assigned_points_def)
  have c: "candidates line_state1 = [line_shape]" by (simp add: line_state1_def)
  show ?thesis
    unfolding commit_decision_keep [OF ok big] line_commit c
    by (simp add: compact_single line_state2_def)
qed

lemma line_body: "main_body (Suc 0) line_collaborators line_state0 = Some line_state2"
proof -
  have a: "forceExit line_state1 = False" "candidates line_state1 = [line_shape]"
    "eng line_state1 = line_started" "available line_state1 = 4"
    by (simp_all add: line_state1_def available_def line_started_fields)
  have b: "line_state1\<lparr>candidates := [line_shape]\<rparr> = line_state1"
    by (simp add: line_state1_def)
  show ?thesis
    unfolding main_body_def line_generate
    by (simp add: a line_best line_rescore b line_decision)
qed

lemma line_loop: "main_loop (Suc 0) line_collaborators line_state0 = Some line_state2"
proof -
  have "\<not> continue_detection line_collaborators line_state2"
    by (simp add: continue_detection_def available_def line_state2_def line_committed_def
        line_started_fields line_options_def)
  moreover have "\<not> forceExit line_state2" by (simp add: line_state2_def)
  ultimately show ?thesis
    by (simp add: line_body del: main_body_def)
qed

lemma line_detect:
  "detect (Suc 0) line_collaborators line_ready line_options = Some line_detected"
proof -
  have f: "m_shapeFactories line_ready = [line_kind]"
    by (simp add: line_ready_def add_shape_factory_def line_engine_def)
  have i: "initial_state line_collaborators line_ready line_options = line_state0"
    by (simp add: line_initial line_state0_def)
  show ?thesis
    by (simp add: detect_def f detect_run_def i line_loop line_state2_def line_detected_def
        line_committed_def line_started_fields del: main_loop.simps)
qed

lemma line_cc:
  "\<forall>f pts k idxs. set (connected_component line_collaborators f pts k idxs) \<subseteq> set idxs"
  by (simp add: line_collaborators_def)

lemma line_ready_fields:
  "m_extractedShapes line_ready = []" "m_shapeIndex line_ready = []"
  "m_numAvailablePoints line_ready = length (m_points line_ready)"
  by (simp_all add: line_ready_def add_shape_factory_def line_engine_def)

lemma line_detected_fields:
  "m_extractedShapes line_detected = [line_shape]"
  "m_shapeIndex line_detected = [0, 0, 0, -1]"
  "m_points line_detected = [0, 0, 0, 10]"
  by (simp_all add: line_detected_def line_committed_def line_started_fields)

subsection \<open>The effect of the decision\<close>

text \<open>
  The best candidate is committed exactly when its overlook probability is at most the
  probability parameter and its claim has at least \<open>min_points\<close> points. Then its points are
  marked with its position in the list, the other entries of the assignment map are
  untouched, the available count decreases by the size of the claim, and every candidate
  left in the pool is one of the other candidates with the assigned indices dropped, a score
  of at least \<open>min_points\<close> and its bounds recomputed against the new available count.
  Otherwise no shape is added, and the assignment map and the available count stay as they
  are. The pool can lose more candidates than those whose score has fallen below
  \<open>min_points\<close>.
\<close>

lemma commit_decision_effect:
  assumes "candidates st \<noteq> []"
    and "best = last (candidates st)"
    and "st' = commit_decision X st"
  shows "((m_extractedShapes (eng st') = m_extractedShapes (eng st) @ [best])
           = (overlook_probability X st (expected_value best) \<le> probability (m_options (eng st))
              \<and> min_points (m_options (eng st)) \<le> length (assigned_points best)))
       \<and> (overlook_probability X st (expected_value best) \<le> probability (m_options (eng st))
            \<and> min_points (m_options (eng st)) \<le> length (assigned_points best)
          \<longrightarrow> m_extractedShapes (eng st') = m_extractedShapes (eng st) @ [best]
            \<and> length (m_shapeIndex (eng st')) = length (m_shapeIndex (eng st))
            \<and> (\<forall>i\<in>set (assigned_points best). i < length (m_shapeIndex (eng st))
                   \<longrightarrow> m_shapeIndex (eng st') ! i = int (length (m_extractedShapes (eng st))))
            \<and> (\<forall>i. i \<notin> set (assigned_points best)
                   \<longrightarrow> m_shapeIndex (eng st') ! i = m_shapeIndex (eng st) ! i)
            \<and> available st' = available st - int (length (assigned_points best))
            \<and> (\<forall>c'\<in>set (candidates st'). \<exists>c\<in>set (butlast (candidates st)).
                  min_points (m_options (eng st))
                    \<le> m_score (update_points (m_shapeIndex (eng st')) c)
                  \<and> c' = compute_bound X (update_points (m_shapeIndex (eng st')) c)
                           (subsetSizes (m_availableOctreeSizes (eng st'))
                              (m_nb_subset_used (update_points (m_shapeIndex (eng st')) c) - 1))
                           (available st')))
       \<and> (\<not> (overlook_probability X st (expected_value best) \<le> probability (m_options (eng st))
               \<and> min_points (m_options (eng st)) \<le> length (assigned_points best))
          \<longrightarrow> m_extractedShapes (eng st') = m_extractedShapes (eng st)
            \<and> m_shapeIndex (eng st') = m_shapeIndex (eng st)
            \<and> available st' = available st)"
proof -
  let ?ok = "overlook_probability X st (expected_value best) \<le> probability (m_options (eng st))"
  let ?big = "min_points (m_options (eng st)) \<le> length (assigned_points best)"
  have keep: "m_extractedShapes (eng st') = m_extractedShapes (eng st) @ [best]
            \<and> length (m_shapeIndex (eng st')) = length (m_shapeIndex (eng st))
            \<and> (\<forall>i\<in>set (assigned_points best). i < length (m_shapeIndex (eng st))
                   \<longrightarrow> m_shapeIndex (eng st') ! i = int (length (m_extractedShapes (eng st))))
            \<and> (\<forall>i. i \<notin> set (assigned_points best)
                   \<longrightarrow> m_shapeIndex (eng st') ! i = m_shapeIndex (eng st) ! i)
            \<and> available st' = available st - int (length (assigned_points best))
            \<and> (\<forall>c'\<in>set (candidates st'). \<exists>c\<in>set (butlast (candidates st)).
                  min_points (m_options (eng st))
                    \<le> m_score (update_points (m_shapeIndex (eng st')) c)
                  \<and> c' = compute_bound X (update_points (m_shapeIndex (eng st')) c)
                           (subsetSizes (m_availableOctreeSizes (eng st'))
                              (m_nb_subset_used (update_points (m_shapeIndex (eng st')) c) - 1))
                           (available st'))"
    if ok: ?ok and big: ?big
  proof -
    let ?pool = "map (refresh_candidate X (commit st)) (map Some (butlast (candidates st))) @ [None]"
    let ?cs = "map the (take (snd (compact ?pool 0 (length ?pool - 1)))
                          (fst (compact ?pool 0 (length ?pool - 1))))"
    have st': "st' = (commit st)\<lparr>candidates := ?cs\<rparr>"
      using commit_decision_keep [of X st] ok big assms(2,3) by (simp add: Let_def)
    have e: "eng st' = eng (commit st)" and n: "numInvalid st' = numInvalid (commit st)"
      and c: "candidates st' = ?cs"
      unfolding st' by simp_all
    have av: "available st' = available (commit st)"
      by (simp add: available_def e n)
    have a1: "m_extractedShapes (eng st') = m_extractedShapes (eng st) @ [best]"
      by (simp add: e commit_fields assms(2))
    have a2: "length (m_shapeIndex (eng st')) = length (m_shapeIndex (eng st))"
      by (simp add: e commit_fields)
    have a3: "\<forall>i\<in>set (assigned_points best). i < length (m_shapeIndex (eng st))
                   \<longrightarrow> m_shapeIndex (eng st') ! i = int (length (m_extractedShapes (eng st)))"
      by (simp add: e commit_fields assms(2) mark_assigned_in)
    have a4: "\<forall>i. i \<notin> set (assigned_points best)
                   \<longrightarrow> m_shapeIndex (eng st') ! i = m_shapeIndex (eng st) ! i"
      by (simp add: e commit_fields assms(2) mark_assigned_out)
    have a5: "available st' = available st - int (length (assigned_points best))"
      unfolding av by (simp add: available_def commit_fields assms(2))
    have a6: "\<forall>c'\<in>set (candidates st'). \<exists>c\<in>set (butlast (candidates st)).
                  min_points (m_options (eng st))
                    \<le> m_score (update_points (m_shapeIndex (eng st')) c)
                  \<and> c' = compute_bound X (update_points (m_shapeIndex (eng st')) c)
                           (subsetSizes (m_availableOctreeSizes (eng st'))
                              (m_nb_subset_used (update_points (m_shapeIndex (eng st')) c) - 1))
                           (available st')"
    proof
      fix c' assume "c' \<in> set (candidates st')"
      then have "Some c' \<in> set ?pool"
        unfolding c by (intro pool_after_compact) simp_all
      then obtain c0 where c0: "c0 \<in> set (butlast (candidates st))"
        and r: "refresh_candidate X (commit st) (Some c0) = Some c'"
        by auto
      from refresh_candidate_Some [OF r] c0
      show "\<exists>c\<in>set (butlast (candidates st)).
                  min_points (m_options (eng st))
                    \<le> m_score (update_points (m_shapeIndex (eng st')) c)
                  \<and> c' = compute_bound X (update_points (m_shapeIndex (eng st')) c)
                           (subsetSizes (m_availableOctreeSizes (eng st'))
                              (m_nb_subset_used (update_points (m_shapeIndex (eng st')) c) - 1))
                           (available st')"
        unfolding e av by (intro bexI [of _ c0]) (simp_all add: commit_fields)
    qed
    from a1 a2 a3 a4 a5 a6 show ?thesis by blast
  qed
  have drop: "m_extractedShapes (eng st') = m_extractedShapes (eng st)
            \<and> m_shapeIndex (eng st') = m_shapeIndex (eng st)
            \<and> available st' = available st"
    if "\<not> (?ok \<and> ?big)"
  proof (cases ?ok)
    case True
    then have "\<not> ?big" using that by simp
    then show ?thesis
      using commit_decision_drop [of X st] True assms(2,3) by (simp add: available_def)
  next
    case False
    then show ?thesis
      using commit_decision_reject [of X st] assms(2,3) by simp
  qed
  have iff: "(m_extractedShapes (eng st') = m_extractedShapes (eng st) @ [best]) = (?ok \<and> ?big)"
    using keep drop by (cases "?ok \<and> ?big") auto
  from iff keep drop show ?thesis by blast
qed

subsection \<open>The run that stalls\<close>




lemma upt_4: "[0 ..< 4] = [0, Suc 0, 2, 3]"
  by (simp add: upt_rec)













subsection \<open>The first pass on the two clusters\<close>

lemma num_subsets_8: "num_subsets 8 = 2"
  by (simp add: num_subsets_floorlog compute_floorlog)

lemma length_cluster_points: "length cluster_points = 8" "cluster_points \<noteq> []"
  by (simp_all add: cluster_points_def)

lemma cluster_engine_constructed:
  "Shape_detection_3 cluster_points (sconst 1) = Some cluster_engine"
proof -
  let ?st = "\<lparr>ls_points = cluster_points, ls_rng = sconst 1, ls_last = 7, ls_remainingPoints = 8,
               ls_direct_octrees = replicate 2 None,
               ls_availableOctreeSizes = replicate 2 0\<rparr>"
  have "Shape_detection_3 cluster_points (sconst 1)
      = Some \<lparr>m_points = ls_points (subset_loop 2 ?st),
               m_options = \<lparr>probability = 0, min_points = 0, epsilon = 0,
                            normal_threshold = 0, cluster_epsilon = 0\<rparr>,
               m_rng = ls_rng (subset_loop 2 ?st),
               m_direct_octrees = ls_direct_octrees (subset_loop 2 ?st),
               m_availableOctreeSizes = ls_availableOctreeSizes (subset_loop 2 ?st),
               m_num_subsets = 2,
               m_shapeIndex = [],
               m_numAvailablePoints = 8,
               m_extractedShapes = [],
               m_shapeFactories = []\<rparr>"
    by (simp add: Shape_detection_3_def length_cluster_points num_subsets_8 Let_def)
  also have "subset_loop 2 ?st
     = \<lparr>ls_points = [0, 2, 100, 0, 0, 1, 100, 100], ls_rng = sconst 1, ls_last = 3,
        ls_remainingPoints = 0,
        ls_direct_octrees = [Some \<lparr>oct_first = 0, oct_beyond = 4, oct_offset = 0\<rparr>,
                             Some \<lparr>oct_first = 4, oct_beyond = 8, oct_offset = 4\<rparr>],
        ls_availableOctreeSizes = [4, 4]\<rparr>"
    by (simp add: Let_def cluster_points_def subset_loop_unfold subset_body_def pick_indices.simps
          move_points_unfold swap_points_def)
      (simp add: eval_nat_numeral)
  finally show ?thesis
    by (simp only: cluster_engine_def ladder_state.select_convs)
qed

lemma cluster_started_fields:
  "m_points cluster_started = [0, 2, 100, 0, 0, 1, 100, 100]"
  "m_options cluster_started = cluster_options"
  "m_rng cluster_started = sconst 1"
  "m_direct_octrees cluster_started = [Some \<lparr>oct_first = 0, oct_beyond = 4, oct_offset = 0\<rparr>,
                          Some \<lparr>oct_first = 4, oct_beyond = 8, oct_offset = 4\<rparr>]"
  "m_availableOctreeSizes cluster_started = [4, 4]"
  "m_num_subsets cluster_started = 2"
  "m_shapeIndex cluster_started = [-1, -1, -1, -1, -1, -1, -1, -1]"
  "m_numAvailablePoints cluster_started = 8"
  "m_extractedShapes cluster_started = []"
  "m_shapeFactories cluster_started = [sample_kind 0, sample_kind 1, sample_kind 2]"
  by (simp_all add: cluster_started_def cluster_ready_def add_shape_factory_def
      cluster_engine_def)

lemma cluster_initial:
  "initial_state line_collaborators cluster_ready cluster_options = cluster_state0"
  by (simp add: initial_state_def cluster_state0_def cluster_started_def cluster_ready_def
      add_shape_factory_def cluster_engine_def line_collaborators_def resize_def
      eval_nat_numeral)

lemma upt_8: "[0 ..< 8] = [0, Suc 0, 2, 3, 4, 5, 6, 7]"
  by (simp add: upt_rec)

lemma upt_4_8: "[4 ..< 8] = [4, 5, 6, 7]"
  by (simp add: upt_rec)

lemma cluster_draw:
  "draw_sample (Suc fuel) line_collaborators cluster_started [] (sconst (Suc 0)) (sconst 0)
     = Some ([0, Suc 0, 2, 3], sconst (Suc 0), sconst 0)"
  by (simp add: cluster_started_fields line_collaborators_def requiredSamples_def
      selectRandomOctreeLevel_def upt_8)

lemma cluster_kinds:
  "sample_kind 0 [0, 2, 100, 0, 0, 1, 100, 100] [0, Suc 0, 2, 3] 1 1 = Some 0"
  "sample_kind (Suc 0) [0, 2, 100, 0, 0, 1, 100, 100] [0, Suc 0, 2, 3] 1 1 = Some 2"
  "sample_kind 2 [0, 2, 100, 0, 0, 1, 100, 100] [0, Suc 0, 2, 3] 1 1 = Some 100"
  by (simp_all add: sample_kind_def)

lemma cluster_improve:
  "improveBound line_collaborators cluster_started (new_Shape 0) 8 (Suc 0) 500
     = (True, shape_near)"
  "improveBound line_collaborators cluster_started (new_Shape 2) 8 (Suc 0) 500
     = (True, shape_between)"
  "improveBound line_collaborators cluster_started (new_Shape 100) 8 (Suc 0) 500
     = (True, shape_far)"
  by (simp_all add: improveBound_def cluster_started_fields sum_sizes_def improve_loop.simps
      improve_step_def cluster_options_def octree_score_def direct_octree_indices_def
      octree_size_def point_matches_def line_collaborators_def new_Shape_def compute_bound_def
      shape_near_def shape_between_def shape_far_def Let_def upt_4 upt_4_8
      upt_rec [of 0 0] upt_rec [of 0 "Suc 0"] upt_rec [of "Suc 0" "Suc 0"] upt_rec [of 0 2]
      upt_rec [of "Suc 0" 2] upt_rec [of 2 2])

lemma cluster_started_rng: "cluster_started\<lparr>m_rng := sconst (Suc 0)\<rparr> = cluster_started"
  by (simp add: cluster_started_def cluster_ready_def add_shape_factory_def cluster_engine_def)

lemma cluster_generate_candidate:
  "generate_candidate (Suc fuel) line_collaborators cluster_state0 = Some cluster_state1"
  by (simp add: generate_candidate_def cluster_state0_def cluster_draw cluster_started_fields
      cluster_started_rng add_candidate_def cluster_options_def cluster_kinds available_def
      cluster_improve shape_near_def shape_between_def shape_far_def cluster_state1_def Let_def
      del: draw_sample.simps)

lemma cluster_overlook_1:
  "overlook_probability line_collaborators cluster_state1 4 = 5 / 6"
  by (simp add: overlook_probability_def StopProbability_def std_pow_def available_def
      cluster_state1_def cluster_state0_def cluster_started_fields line_collaborators_def)

lemma cluster_generate:
  "generate_candidates (Suc fuel) line_collaborators (cluster_state0\<lparr>bestExp := 0\<rparr>)
     = Some cluster_state1"
proof -
  have b: "cluster_state0\<lparr>bestExp := 0\<rparr> = cluster_state0" by (simp add: cluster_state0_def)
  have c: "\<not> continue_generation line_collaborators cluster_state1"
    using cluster_overlook_1
    by (simp add: continue_generation_def cluster_state1_def cluster_state0_def
        cluster_started_fields cluster_options_def)
  show ?thesis
    unfolding b using c by (simp add: cluster_generate_candidate del: generate_candidate_def)
qed

lemma cluster_best:
  "getBestCandidate (Suc (Suc fuel)) line_collaborators cluster_started
     [shape_near, shape_between, shape_far] 8
   = Some [shape_between, shape_far, shape_near]"
proof -
  have i: "improveBound line_collaborators cluster_started shape_near 8 2 2 = (False, shape_near)"
    by (simp add: improveBound_def shape_near_def)
  have r: "refine_overlapping line_collaborators cluster_started 8 0 1
             [shape_between, shape_far, shape_near] False
           = ([shape_between, shape_far, shape_near], False, 1)"
    by (subst refine_overlapping.simps) (simp add: shape_near_def shape_far_def)
  have mb: "max_bound shape_near = 4" "max_bound shape_between = 2" "max_bound shape_far = 3"
    by (simp_all add: shape_near_def shape_between_def shape_far_def)
  have l: "best_loop (Suc fuel) line_collaborators cluster_started 8 1 False
             [shape_between, shape_far, shape_near]
           = Some [shape_between, shape_far, shape_near]"
    by simp
  have "best_loop (Suc (Suc fuel)) line_collaborators cluster_started 8 0 True
             [shape_near, shape_between, shape_far]
           = Some [shape_between, shape_far, shape_near]"
    unfolding best_loop.simps(2) [of "Suc fuel"]
    by (simp add: mb cluster_started_fields cluster_options_def i r l del: best_loop.simps)
  then show ?thesis by (simp add: getBestCandidate_def del: best_loop.simps)
qed

lemma cluster_rescore:
  "rescore_best line_collaborators cluster_started shape_near = shape_claim"
  by (simp add: rescore_best_def octree_score_def point_matches_def cluster_started_fields
      cluster_options_def line_collaborators_def shape_near_def shape_claim_def Let_def upt_8)

lemma cluster_commit:
  "commit cluster_state2 = cluster_state3\<lparr>candidates := [shape_between, shape_far, shape_claim]\<rparr>"
  by (simp add: commit_def cluster_state2_def cluster_state1_def cluster_state0_def
      cluster_state3_def cluster_committed_def
      cluster_started_fields assigned_points_def shape_claim_def shape_near_def assign_point_def
      adjust_octree_size_def octree_size_def Let_def
      upt_rec [of 0] upt_rec [of "Suc 0"] upt_rec [of 2])

lemma cluster_state2_fields:
  "eng cluster_state2 = cluster_started"
  "candidates cluster_state2 = [shape_between, shape_far, shape_claim]"
  "available cluster_state2 = 8"
  "nbNewCandidates cluster_state2 = 1"
  by (simp_all add: cluster_state2_def cluster_state1_def cluster_state0_def available_def
      cluster_started_fields)

lemma cluster_refresh:
  "refresh_candidate line_collaborators (commit cluster_state2) (Some shape_between) = None"
  "refresh_candidate line_collaborators (commit cluster_state2) (Some shape_far) = Some shape_far"
  by (simp_all add: cluster_commit refresh_candidate_def update_points_def cluster_state3_def
      cluster_committed_def cluster_started_fields cluster_options_def shape_between_def
      shape_far_def compute_bound_def line_collaborators_def available_def Let_def)

lemma cluster_decision: "commit_decision line_collaborators cluster_state2 = cluster_state3"
proof -
  have ok: "overlook_probability line_collaborators cluster_state2
              (expected_value (last (candidates cluster_state2)))
            \<le> probability (m_options (eng cluster_state2))"
    by (simp add: overlook_probability_def StopProbability_def std_pow_def
        cluster_state2_fields shape_claim_def shape_near_def cluster_started_fields
        cluster_options_def line_collaborators_def)
  have big: "min_points (m_options (eng cluster_state2))
             \<le> length (assigned_points (last (candidates cluster_state2)))"
    by (simp add: cluster_state2_fields shape_claim_def cluster_started_fields
        cluster_options_def assigned_points_def)
  have c: "compact [None, Some shape_far, None] 0 (Suc (Suc 0))
             = ([Some shape_far, None, None], 0)"
    using compact_after_swap [of shape_far] by (simp add: numeral_2_eq_2)
  show ?thesis
    unfolding commit_decision_keep [OF ok big]
    by (simp add: cluster_state2_fields(2) cluster_refresh c Let_def)
      (simp add: cluster_commit cluster_state3_def)
qed

lemma cluster_body:
  "main_body (Suc (Suc fuel)) line_collaborators cluster_state0 = Some cluster_state3"
proof -
  have a: "forceExit cluster_state1 = False"
    "candidates cluster_state1 = [shape_near, shape_between, shape_far]"
    "eng cluster_state1 = cluster_started" "available cluster_state1 = 8"
    by (simp_all add: cluster_state1_def cluster_state0_def available_def cluster_started_fields)
  have b: "cluster_state1\<lparr>candidates := [shape_between, shape_far, shape_claim]\<rparr> = cluster_state2"
    by (simp add: cluster_state2_def)
  show ?thesis
    unfolding main_body_def cluster_generate
    by (simp add: a cluster_best cluster_rescore b cluster_decision)
qed

section \<open>The claims\<close>

text \<open>
  C2. The overlook probability that the driver computes is, for every candidate size \<open>c\<close>,
  number of available points \<open>P\<close>, number \<open>d\<close> of drawn candidates and octree depth \<open>L\<close>, the
  value \<open>min(1, (1 - c / (3 P L))^d)\<close> (over the reals).
\<close>

theorem StopProbability_is_overlook:
  "StopProbability c P (real d) L = overlook_spec c P d L"
  by (simp add: StopProbability_def overlook_spec_def std_pow_of_nat min.commute mult_ac)

text \<open>
  C7, as amended. The constructor divides the positions \<open>0, \<dots>, N - 1\<close> of the point array,
  which it permutes, into exactly \<open>K = max(2, \<lfloor>log\<^sub>2 N\<rfloor> - 9)\<close> pairwise disjoint ranges whose
  union is the whole array, each with its own direct octree. Subset \<open>s > 0\<close> holds
  \<open>\<lfloor>\<lceil>N / 2^(K-1-s)\<rceil> / 2\<rfloor>\<close> indices, which differs from \<open>N / 2^(K-s)\<close> by at most one half;
  subset \<open>0\<close> receives all the remaining \<open>\<lceil>N / 2^(K-1)\<rceil>\<close> indices, as many as subset \<open>1\<close>
  or one more.
\<close>

theorem subset_ladder_partition:
  assumes "Shape_detection_3 pts rng = Some e"
  shows "m_num_subsets e = nat (max 2 (\<lfloor>log 2 (real (length pts))\<rfloor> - 9))
       \<and> length (m_direct_octrees e) = m_num_subsets e
       \<and> (\<forall>s<m_num_subsets e. m_direct_octrees e ! s \<noteq> None)
       \<and> (\<forall>s<m_num_subsets e. \<forall>s'<m_num_subsets e.
             s \<noteq> s' \<longrightarrow> subset_indices e s \<inter> subset_indices e s' = {})
       \<and> (\<Union>s<m_num_subsets e. subset_indices e s) = {0 ..< length pts}
       \<and> mset (m_points e) = mset pts
       \<and> (\<forall>s<m_num_subsets e. 0 < s \<longrightarrow>
             card (subset_indices e s)
               = ceil_div (length pts) (2 ^ (m_num_subsets e - 1 - s)) div 2
           \<and> length pts \<le> 2 ^ (m_num_subsets e - s) * card (subset_indices e s)
                              + 2 ^ (m_num_subsets e - 1 - s)
           \<and> 2 ^ (m_num_subsets e - s) * card (subset_indices e s)
                < length pts + 2 ^ (m_num_subsets e - 1 - s))
       \<and> card (subset_indices e 0) = ceil_div (length pts) (2 ^ (m_num_subsets e - 1))
       \<and> card (subset_indices e 1) \<le> card (subset_indices e 0)
       \<and> card (subset_indices e 0) \<le> card (subset_indices e 1) + 1"
proof -
  let ?N = "length pts" and ?K = "m_num_subsets e"
  have K: "?K = num_subsets ?N" using assms by (rule constructed_fields)
  then have K2: "2 \<le> ?K" by (simp add: num_subsets_ge2)
  have idx: "subset_indices e s = {ladder_start ?N ?K s ..< ladder_beyond ?N ?K s}"
    if "s < ?K" for s
    using assms that by (rule constructed_subset_indices)
  have card_idx: "card (subset_indices e s) = octree_size (ladder_tree ?N ?K s)"
    if "s < ?K" for s
    using that by (simp add: idx octree_size_def ladder_tree_def)
  have c1: "?K = nat (max 2 (\<lfloor>log 2 (real ?N)\<rfloor> - 9))"
    unfolding K by (rule num_subsets_log)
  have c2: "length (m_direct_octrees e) = ?K"
    using assms by (rule constructed_octrees)
  have c3: "\<forall>s<?K. m_direct_octrees e ! s \<noteq> None"
    using constructed_octrees(2) [OF assms] by simp
  have c4: "\<forall>s<?K. \<forall>s'<?K. s \<noteq> s' \<longrightarrow> subset_indices e s \<inter> subset_indices e s' = {}"
  proof (intro allI impI)
    fix s s' assume a: "s < ?K" "s' < ?K" "s \<noteq> s'"
    show "subset_indices e s \<inter> subset_indices e s' = {}"
    proof (cases "s < s'")
      case True
      then show ?thesis using a ladder_disjoint [of s s' ?K ?N] by (simp add: idx)
    next
      case False
      then have "s' < s" using a by simp
      then show ?thesis using a ladder_disjoint [of s' s ?K ?N] by (simp add: idx Int_commute)
    qed
  qed
  have c5: "(\<Union>s<?K. subset_indices e s) = {0 ..< ?N}"
  proof -
    have "(\<Union>s<?K. subset_indices e s) = (\<Union>s<?K. {ladder_start ?N ?K s ..< ladder_beyond ?N ?K s})"
      by (simp add: idx)
    then show ?thesis using K2 ladder_cover [of ?K ?N] by simp
  qed
  have c6: "mset (m_points e) = mset pts"
    using assms by (rule constructed_points)
  have c7: "\<forall>s<?K. 0 < s \<longrightarrow>
             card (subset_indices e s) = ceil_div ?N (2 ^ (?K - 1 - s)) div 2
           \<and> ?N \<le> 2 ^ (?K - s) * card (subset_indices e s) + 2 ^ (?K - 1 - s)
           \<and> 2 ^ (?K - s) * card (subset_indices e s) < ?N + 2 ^ (?K - 1 - s)"
  proof (intro allI impI)
    fix s assume a: "s < ?K" "0 < s"
    have sz: "card (subset_indices e s) = ceil_div ?N (2 ^ (?K - 1 - s)) div 2"
      using a by (simp add: card_idx ladder_size_pos)
    have p: "(2::nat) ^ (?K - s) = 2 * 2 ^ (?K - 1 - s)"
      using a by (metis Suc_diff_Suc diff_Suc_eq_diff_pred diff_commute power_Suc)
    show "card (subset_indices e s) = ceil_div ?N (2 ^ (?K - 1 - s)) div 2
           \<and> ?N \<le> 2 ^ (?K - s) * card (subset_indices e s) + 2 ^ (?K - 1 - s)
           \<and> 2 ^ (?K - s) * card (subset_indices e s) < ?N + 2 ^ (?K - 1 - s)"
      unfolding sz p using half_ceil_div_bounds [of "2 ^ (?K - 1 - s)" ?N] by simp
  qed
  have c8: "card (subset_indices e 0) = ceil_div ?N (2 ^ (?K - 1))"
    using K2 by (simp add: card_idx ladder_size_0)
  have s1: "card (subset_indices e 1) = ceil_div ?N (2 ^ (?K - 2)) div 2"
  proof -
    have "?K - 1 - 1 = ?K - 2" by simp
    then show ?thesis
      using K2 ladder_size_pos [of 1 ?K ?N] card_idx [of 1] by simp
  qed
  have "(2::nat) ^ (?K - 1) = 2 * 2 ^ (?K - 2)"
    using K2 by (metis Suc_diff_Suc Suc_1 diff_Suc_eq_diff_pred less_eq_Suc_le power_Suc numeral_2_eq_2)
  then have s0: "card (subset_indices e 0) = (ceil_div ?N (2 ^ (?K - 2)) + 1) div 2"
    unfolding c8 using ceil_div_double [of "2 ^ (?K - 2)" ?N] by simp
  have c9: "card (subset_indices e 1) \<le> card (subset_indices e 0)"
    and c10: "card (subset_indices e 0) \<le> card (subset_indices e 1) + 1"
    unfolding s0 s1 by presburger+
  from c1 c2 c3 c4 c5 c6 c7 c8 c9 c10 show ?thesis by blast
qed

theorem subset_ladder_partition_witness:
  "m_num_subsets line_engine = nat (max 2 (\<lfloor>log 2 (real (4::nat))\<rfloor> - 9))
   \<and> (\<Union>s<m_num_subsets line_engine. subset_indices line_engine s) = {0 ..< 4}
   \<and> mset (m_points line_engine) = mset line_points"
proof -
  note t = subset_ladder_partition [OF line_engine_constructed, unfolded length_line_points(1)]
  from t show ?thesis by (elim conjE) (intro conjI; assumption)
qed

text \<open>
  C7 as stated fails on 4097 points: there are three subsets, and subset \<open>0\<close> holds 1025
  indices. It is larger than subset \<open>1\<close>, which holds 1024, and it is twice \<open>N / 2^K = 512\<close>.
\<close>

theorem subset_zero_not_smallest:
  "m_num_subsets cloud_4097 = 3
   \<and> card (subset_indices cloud_4097 0) = 1025
   \<and> card (subset_indices cloud_4097 1) = 1024
   \<and> card (subset_indices cloud_4097 2) = 2048
   \<and> \<not> card (subset_indices cloud_4097 0) \<le> card (subset_indices cloud_4097 1)
   \<and> 2 * (4097 div 2 ^ m_num_subsets cloud_4097) \<le> card (subset_indices cloud_4097 0)"
  by (simp add: cloud_4097_subsets cloud_4097_indices)

text \<open>
  C8. When no shape kind is registered, \<open>detect\<close> returns at once, whatever the fuel, and the
  engine is the one it was called on: no shape is added and nothing is modified.
\<close>

theorem detect_without_kinds:
  assumes "m_shapeFactories e = []"
  shows "detect fuel X e options = Some e"
  using assms by (simp add: detect_def)

theorem detect_without_kinds_witness:
  "detect 0 line_collaborators line_engine line_options = Some line_engine"
  using detect_without_kinds [of line_engine 0 line_collaborators line_options]
  by (simp add: line_engine_def)

text \<open>
  C10. On an engine that was constructed on a non-empty input, with any number of shape
  kinds registered and \<open>detect\<close> not yet called, the view of the unassigned points is empty
  while \<open>number_of_unassigned_points\<close> is the number of input points: the two accessors
  disagree.
\<close>

theorem unassigned_view_before_detect:
  assumes "Shape_detection_3 pts rng = Some e0" and "e = foldl add_shape_factory e0 factories"
  shows "unassigned_points e = [] \<and> number_of_unassigned_points e = length pts
       \<and> 0 < length pts \<and> length (unassigned_points e) \<noteq> number_of_unassigned_points e"
proof -
  have f: "m_shapeIndex (foldl add_shape_factory e0 fs) = m_shapeIndex e0
         \<and> m_numAvailablePoints (foldl add_shape_factory e0 fs) = m_numAvailablePoints e0" for fs
    by (induction fs rule: rev_induct) (simp_all add: add_shape_factory_def)
  show ?thesis
    using constructed_fields [OF assms(1)] f [of factories] assms(2)
    by (simp add: unassigned_points_def number_of_unassigned_points_def)
qed

theorem unassigned_view_before_detect_witness:
  "unassigned_points (add_shape_factory line_engine line_kind) = []
   \<and> number_of_unassigned_points (add_shape_factory line_engine line_kind) = 4"
  using unassigned_view_before_detect [OF line_engine_constructed,
      of "add_shape_factory line_engine line_kind" "[line_kind]"]
  by (simp add: length_line_points)

text \<open>
  C1. Let the connected-component filter return only indices it was given. After \<open>detect\<close>
  returns on an engine on which it had not run, every index in the assigned set of an
  extracted shape is mapped by the assignment map to that shape's position, and lies in the
  assigned set of no other extracted shape. Moreover every pass of the main loop, started in
  a state in which the assignment map agrees with the extracted shapes, ends in such a
  state and leaves every entry that was already set to a shape as it was.
\<close>

theorem assignment_matches_claims:
  assumes cc: "\<forall>f pts k idxs. set (connected_component X f pts k idxs) \<subseteq> set idxs"
  shows "(m_extractedShapes e = [] \<and> m_shapeIndex e = []
            \<and> m_numAvailablePoints e = length (m_points e)
            \<and> detect fuel X e options = Some e'
          \<longrightarrow> (\<forall>k<length (m_extractedShapes e').
                 \<forall>i\<in>set (assigned_points (m_extractedShapes e' ! k)).
                   m_shapeIndex e' ! i = int k
                   \<and> (\<forall>k'<length (m_extractedShapes e').
                         k' \<noteq> k \<longrightarrow> i \<notin> set (assigned_points (m_extractedShapes e' ! k')))))
       \<and> (length (m_shapeIndex (eng st)) = length (m_points (eng st))
            \<and> assignment_consistent (eng st)
            \<and> main_body fuel X st = Some st'
          \<longrightarrow> length (m_shapeIndex (eng st')) = length (m_points (eng st'))
              \<and> assignment_consistent (eng st')
              \<and> (\<forall>i. m_shapeIndex (eng st) ! i \<noteq> -1
                     \<longrightarrow> m_shapeIndex (eng st') ! i = m_shapeIndex (eng st) ! i))"
proof (intro conjI impI)
  assume a: "m_extractedShapes e = [] \<and> m_shapeIndex e = []
            \<and> m_numAvailablePoints e = length (m_points e)
            \<and> detect fuel X e options = Some e'"
  have "assignment_consistent e'"
    using a [THEN conjunct2, THEN conjunct2, THEN conjunct2]
  proof (cases rule: detect_cases)
    case none
    then show ?thesis using a by (simp add: assignment_consistent_def)
  next
    case (run st)
    have "length (m_shapeIndex (eng (initial_state X e options)))
            = length (m_points (eng (initial_state X e options)))"
      using a by (simp add: initial_state_fields resize_def)
    moreover have "assignment_consistent (eng (initial_state X e options))"
      using a by (simp add: assignment_consistent_def initial_state_fields)
    ultimately have "assignment_consistent (eng st)"
      using main_loop_consistent [OF cc run(2)] by simp
    then show ?thesis by (simp add: run(3) assignment_consistent_def)
  qed
  then show "\<forall>k<length (m_extractedShapes e').
                 \<forall>i\<in>set (assigned_points (m_extractedShapes e' ! k)).
                   m_shapeIndex e' ! i = int k
                   \<and> (\<forall>k'<length (m_extractedShapes e').
                         k' \<noteq> k \<longrightarrow> i \<notin> set (assigned_points (m_extractedShapes e' ! k')))"
    unfolding assignment_consistent_def by (metis of_nat_eq_iff)
next
  assume b: "length (m_shapeIndex (eng st)) = length (m_points (eng st))
            \<and> assignment_consistent (eng st)
            \<and> main_body fuel X st = Some st'"
  from b have l: "length (m_shapeIndex (eng st)) = length (m_points (eng st))"
    and ac: "assignment_consistent (eng st)" and mb: "main_body fuel X st = Some st'"
    by simp_all
  note r = main_body_consistent [OF cc mb l ac]
  from r show "length (m_shapeIndex (eng st')) = length (m_points (eng st'))" by simp
  from r show "assignment_consistent (eng st')" by simp
  from r show "\<forall>i. m_shapeIndex (eng st) ! i \<noteq> -1
                     \<longrightarrow> m_shapeIndex (eng st') ! i = m_shapeIndex (eng st) ! i" by simp
qed

theorem assignment_matches_claims_witness:
  "detect (Suc 0) line_collaborators line_ready line_options = Some line_detected
   \<and> assigned_points (m_extractedShapes line_detected ! 0) = [0, 1, 2]
   \<and> m_shapeIndex line_detected ! 0 = 0
   \<and> m_shapeIndex line_detected ! 1 = 0
   \<and> m_shapeIndex line_detected ! 2 = 0
   \<and> length (m_shapeIndex (eng line_state2)) = length (m_points (eng line_state2))"
proof -
  note t = assignment_matches_claims [OF line_cc, of line_ready "Suc 0" line_options line_detected
      line_state0 line_state2]
  have c0: "assignment_consistent (eng line_state0)"
    by (simp add: assignment_consistent_def line_state0_def line_started_fields)
  have l0: "length (m_shapeIndex (eng line_state0)) = length (m_points (eng line_state0))"
    by (simp add: line_state0_def line_started_fields)
  from t line_detect line_ready_fields c0 l0 line_body
  have a: "\<forall>k<length (m_extractedShapes line_detected).
             \<forall>i\<in>set (assigned_points (m_extractedShapes line_detected ! k)).
               m_shapeIndex line_detected ! i = int k
               \<and> (\<forall>k'<length (m_extractedShapes line_detected).
                     k' \<noteq> k \<longrightarrow> i \<notin> set (assigned_points (m_extractedShapes line_detected ! k')))"
    and b: "length (m_shapeIndex (eng line_state2)) = length (m_points (eng line_state2))"
    by blast+
  have ap: "assigned_points (m_extractedShapes line_detected ! 0) = [0, 1, 2]"
    by (simp add: line_detected_fields assigned_points_def line_shape_def)
  from a ap have "m_shapeIndex line_detected ! 0 = 0 \<and> m_shapeIndex line_detected ! 1 = 0
     \<and> m_shapeIndex line_detected ! 2 = 0"
    by (simp add: line_detected_fields)
  then show ?thesis using line_detect ap b by simp
qed




text \<open>
  C4 fails in the code at the discarding of candidates. On eight points in two clusters,
  with three shape kinds, the first pass of the main loop pools three candidates and commits
  the best one, at the origin. Of the other two, the one between the clusters is left with
  no point and is deleted, and the one at 100 keeps its three points, at least \<open>min_points\<close>,
  and has its bounds recomputed. The loop that closes the gaps of the vector moves it to the
  front and counts the end index down past it, so \<^verbatim>\<open>candidates.resize(end)\<close> empties the
  pool: the candidate that passed is lost.
\<close>

theorem surviving_candidate_dropped:
  "Shape_detection_3 cluster_points (sconst 1) = Some cluster_engine
   \<and> generate_candidates 2 line_collaborators
        (initial_state line_collaborators cluster_ready cluster_options) = Some cluster_state1
   \<and> getBestCandidate 2 line_collaborators (eng cluster_state1) (candidates cluster_state1)
        (available cluster_state1) = Some [shape_between, shape_far, shape_near]
   \<and> rescore_best line_collaborators (eng cluster_state1) shape_near = shape_claim
   \<and> cluster_state2 = cluster_state1\<lparr>candidates := [shape_between, shape_far, shape_claim]\<rparr>
   \<and> refresh_candidate line_collaborators (commit cluster_state2) (Some shape_between) = None
   \<and> refresh_candidate line_collaborators (commit cluster_state2) (Some shape_far)
        = Some shape_far
   \<and> min_points (m_options (eng (commit cluster_state2))) \<le> m_score shape_far
   \<and> commit_decision line_collaborators cluster_state2 = cluster_state3
   \<and> main_body 2 line_collaborators
        (initial_state line_collaborators cluster_ready cluster_options) = Some cluster_state3
   \<and> m_extractedShapes (eng cluster_state3) = [shape_claim]
   \<and> candidates cluster_state3 = []"
proof -
  have e1: "eng cluster_state1 = cluster_started" "available cluster_state1 = 8"
    "candidates cluster_state1 = [shape_near, shape_between, shape_far]"
    by (simp_all add: cluster_state1_def cluster_state0_def available_def cluster_started_fields)
  have two: "(2::nat) = Suc (Suc 0)" by simp
  have g: "generate_candidates 2 line_collaborators
        (initial_state line_collaborators cluster_ready cluster_options) = Some cluster_state1"
    using cluster_generate [of "Suc 0"] by (simp add: cluster_initial cluster_state0_def two)
  have b: "getBestCandidate 2 line_collaborators (eng cluster_state1) (candidates cluster_state1)
        (available cluster_state1) = Some [shape_between, shape_far, shape_near]"
    unfolding e1 two by (rule cluster_best)
  have m: "min_points (m_options (eng (commit cluster_state2))) \<le> m_score shape_far"
    by (simp add: cluster_commit cluster_state3_def cluster_committed_def cluster_started_fields
        cluster_options_def shape_far_def)
  have mb: "main_body 2 line_collaborators
        (initial_state line_collaborators cluster_ready cluster_options) = Some cluster_state3"
    unfolding cluster_initial two by (rule cluster_body)
  have x: "m_extractedShapes (eng cluster_state3) = [shape_claim]" "candidates cluster_state3 = []"
    by (simp_all add: cluster_state3_def cluster_committed_def)
  show ?thesis
    using cluster_engine_constructed g b cluster_rescore cluster_refresh m cluster_decision mb x
    by (simp add: e1 cluster_state2_def)
qed

text \<open>
  C5. The final verification of the best candidate is the connected-component filter, with
  \<open>cluster_epsilon\<close>, applied to the unassigned points that pass the distance test with
  \<open>3 * epsilon\<close> and the normal test with the normal threshold. Hence, when the filter
  returns only indices it was given, every point claimed by a shape that \<open>detect\<close> extracted
  is within \<open>3 * epsilon\<close> of the shape and its normal deviates by at most the threshold.
\<close>

theorem claimed_points_within_tolerance:
  assumes cc: "\<forall>f pts k idxs. set (connected_component X f pts k idxs) \<subseteq> set idxs"
  shows "assigned_points (rescore_best X e c)
           = connected_component X (m_fit c) (m_points e) (cluster_epsilon (m_options e))
               (filter (point_matches X (m_points e) (m_shapeIndex e) (m_fit c)
                          (3 * epsilon (m_options e)) (normal_threshold (m_options e)))
                  [0 ..< length (m_points e)])
       \<and> (m_extractedShapes e = [] \<and> detect fuel X e options = Some e'
          \<longrightarrow> (\<forall>S\<in>set (m_extractedShapes e'). \<forall>i\<in>set (assigned_points S).
                 \<bar>signed_distance X (m_fit S) (m_points e' ! i)\<bar> \<le> 3 * epsilon options
                 \<and> normal_deviation X (m_fit S) (m_points e' ! i) \<le> normal_threshold options))"
proof (intro conjI impI)
  show "assigned_points (rescore_best X e c)
           = connected_component X (m_fit c) (m_points e) (cluster_epsilon (m_options e))
               (filter (point_matches X (m_points e) (m_shapeIndex e) (m_fit c)
                          (3 * epsilon (m_options e)) (normal_threshold (m_options e)))
                  [0 ..< length (m_points e)])"
    by (rule rescore_best_fields)
next
  assume a: "m_extractedShapes e = [] \<and> detect fuel X e options = Some e'"
  from a [THEN conjunct2]
  show "\<forall>S\<in>set (m_extractedShapes e'). \<forall>i\<in>set (assigned_points S).
                 \<bar>signed_distance X (m_fit S) (m_points e' ! i)\<bar> \<le> 3 * epsilon options
                 \<and> normal_deviation X (m_fit S) (m_points e' ! i) \<le> normal_threshold options"
  proof (cases rule: detect_cases)
    case none
    then show ?thesis using a by simp
  next
    case (run st)
    have "claims_within_tolerance X (eng (initial_state X e options))"
      using a by (simp add: claims_within_tolerance_def initial_state_fields)
    then have t: "claims_within_tolerance X (eng st)"
      using main_loop_tolerance [OF cc run(2)] by simp
    have o: "m_options (eng st) = options"
      using main_loop_options [OF run(2)] by (simp add: initial_state_fields)
    from t show ?thesis
      unfolding claims_within_tolerance_def o by (simp add: run(3))
  qed
qed

theorem claimed_points_within_tolerance_witness:
  "detect (Suc 0) line_collaborators line_ready line_options = Some line_detected
   \<and> \<bar>signed_distance line_collaborators (m_fit line_shape) (m_points line_detected ! 2)\<bar>
        \<le> 3 * epsilon line_options
   \<and> normal_deviation line_collaborators (m_fit line_shape) (m_points line_detected ! 2)
        \<le> normal_threshold line_options"
proof -
  note t = claimed_points_within_tolerance [OF line_cc, where e = line_ready and c = line_shape
      and fuel = "Suc 0" and options = line_options and e' = line_detected]
  from t line_detect line_ready_fields(1)
  have "\<forall>S\<in>set (m_extractedShapes line_detected). \<forall>i\<in>set (assigned_points S).
          \<bar>signed_distance line_collaborators (m_fit S) (m_points line_detected ! i)\<bar>
             \<le> 3 * epsilon line_options
          \<and> normal_deviation line_collaborators (m_fit S) (m_points line_detected ! i)
             \<le> normal_threshold line_options"
    by blast
  then show ?thesis
    using line_detect
    by (simp add: line_detected_fields(1) assigned_points_def line_shape_def)
qed

end
